theory Spec2Isabelle
  imports Main "HOL-Library.Char_ord" "HOL-Library.List_Lexorder" "HOL-Library.Multiset"
begin

section \<open>Go strings\<close>

text \<open>
  The program is the package \<open>make\<close> of \<open>import.name/make\<close>; line numbers are those
  of its source file \<open>src/unnamed/part_000\<close>.

  A Go string is a sequence of bytes; it is modelled as a \<open>string\<close> (a list of
  \<open>char\<close>, one per byte).  With \<open>Char_ord\<close> and \<open>List_Lexorder\<close> the order on
  \<open>string\<close> is the bytewise lexicographic order of Go's \<open><\<close> on strings, which is what
  \<open>sort.Strings\<close> uses.  The functions of package \<open>strings\<close> are modelled for the way
  the source calls them: every substring argument in the source is a single byte
  (\<open>`'`\<close>, \<open>`"`\<close>, \<open>` `\<close>, \<open>`=`\<close>) and every character set is ASCII.
\<close>

definition squote :: char where
  "squote = CHR 0x27"

definition dquote :: char where
  "dquote = CHR 0x22"

definition strings_Contains :: "string \<Rightarrow> char \<Rightarrow> bool" where
  "strings_Contains s c = (c \<in> set s)"

definition strings_Count :: "string \<Rightarrow> char \<Rightarrow> int" where
  "strings_Count s c = int (length (filter (\<lambda>x. x = c) s))"

text \<open>\<open>strings.IndexAny(s, chars)\<close>: the index of the first byte of \<open>s\<close> that is in
  \<open>chars\<close>, or \<open>-1\<close>.\<close>

fun strings_IndexAny :: "string \<Rightarrow> string \<Rightarrow> int" where
  "strings_IndexAny [] chars = - 1"
| "strings_IndexAny (x # xs) chars =
     (if x \<in> set chars then 0
      else (let i = strings_IndexAny xs chars in if i < 0 then - 1 else i + 1))"

definition strings_Index :: "string \<Rightarrow> char \<Rightarrow> int" where
  "strings_Index s c = strings_IndexAny s [c]"

text \<open>\<open>strings.LastIndexAny(s, chars)\<close>: the index of the last byte of \<open>s\<close> that is in
  \<open>chars\<close>, or \<open>-1\<close>.\<close>

definition strings_LastIndexAny :: "string \<Rightarrow> string \<Rightarrow> int" where
  "strings_LastIndexAny s chars =
     (let i = strings_IndexAny (rev s) chars
      in if i < 0 then - 1 else int (length s) - 1 - i)"

fun strings_Join :: "string list \<Rightarrow> string \<Rightarrow> string" where
  "strings_Join [] sep = []"
| "strings_Join [x] sep = x"
| "strings_Join (x # y # ys) sep = x @ sep @ strings_Join (y # ys) sep"

text \<open>The slice expressions \<open>s[:hi]\<close>, \<open>s[lo:]\<close> and \<open>s[lo:hi]\<close>.  Go panics when
  the bounds are not \<open>0 \<le> lo \<le> hi \<le> len(s)\<close>; lemma \<open>maybeQuote_bounds\<close> below
  shows that the bounds \<open>maybeQuote\<close> computes always are.\<close>

definition slice_to :: "string \<Rightarrow> int \<Rightarrow> string" where
  "slice_to s hi = take (nat hi) s"

definition slice_from :: "string \<Rightarrow> int \<Rightarrow> string" where
  "slice_from s lo = drop (nat lo) s"

definition slice :: "string \<Rightarrow> int \<Rightarrow> int \<Rightarrow> string" where
  "slice s lo hi = take (nat (hi - lo)) (drop (nat lo) s)"

section \<open>Quoting for the log line\<close>

text \<open>
  \<open>maybeQuote\<close> of the source.  \<open>strconv.Quote\<close> belongs to Go's standard library, not
  to this repository; it is the parameter \<open>quote\<close>.
\<close>

definition maybeQuote_beg :: "string \<Rightarrow> int" where
  "maybeQuote_beg s =
     (let beg = strings_IndexAny s [dquote, CHR '' ''];
          i = strings_Index s CHR ''=''
      in if i \<ge> 0 \<and> i < beg then i + 1 else beg)"

definition maybeQuote_end :: "string \<Rightarrow> int" where
  "maybeQuote_end s = strings_LastIndexAny s [dquote, CHR '' ''] + 1"

definition maybeQuote :: "(string \<Rightarrow> string) \<Rightarrow> string \<Rightarrow> string" where
  "maybeQuote quote s =
     (if strings_Contains s squote then quote s
      else if strings_Count s dquote = 0 then
        (let space = strings_Index s CHR '' '' in
         if space < 0 then s
         else
           (let equal = strings_Index s CHR ''='' in
            if equal < 0 \<or> equal > space then [dquote] @ s @ [dquote]
            else slice_to s (equal + 1) @ [dquote] @ slice_from s (equal + 1) @ [dquote]))
      else if strings_Count s dquote = 2 then
        (let beg = maybeQuote_beg s; end = maybeQuote_end s in
         slice_to s beg @ [squote] @ slice s beg end @ [squote] @ slice_from s end)
      else [squote] @ s @ [squote])"

section \<open>Environment overlay\<close>

text \<open>
  \<open>type Env map[string]string\<close>.  A Go map is iterated in an unspecified order; the
  model is the association list of the map's entries in the order the \<open>range\<close> loop
  visits them (so the keys of an \<open>Env\<close> are distinct, and two lists with the same
  entries are the same map iterated in two orders).  The \<open>nil\<close> map is \<open>None\<close> where
  the source tells it from the empty map.
\<close>

type_synonym Env = "(string \<times> string) list"

definition Env_pair :: "(string \<Rightarrow> string) \<Rightarrow> string \<times> string \<Rightarrow> string" where
  "Env_pair quote kv = maybeQuote quote (fst kv) @ ''='' @ maybeQuote quote (snd kv)"

definition Env_String :: "(string \<Rightarrow> string) \<Rightarrow> Env \<Rightarrow> string" where
  "Env_String quote env = strings_Join (sort (map (Env_pair quote) env)) '' ''"

section \<open>Tasks\<close>

text \<open>
  \<open>type Task struct\<close>.  The \<open>tag\<close> pointer is the task's identity: \<open>new(tag)\<close> in
  every factory gives a fresh address, modelled as a natural number, and \<open>nil\<close> (a
  \<open>Task\<close> value that no factory made) is \<open>None\<close>.  A condition and a function are Go
  closures; they run in the world outside the engine (file system, processes), whose
  state is the type parameter \<open>'w\<close>: a condition reads and may change it and yields its
  verdict, a function yields \<open>None\<close> for a \<open>nil\<close> error and \<open>Some msg\<close> for an
  error with text \<open>msg\<close>.  The sub-tasks are a slice of \<open>Task\<close> values, here a finite
  tree; sharing is by equal tags.
\<close>

datatype 'w Task = Task
  (name: string)
  (isDefault: bool)
  (tasks: "'w Task list")
  (command: "string list")
  (env: "Env option")
  (func: "('w \<Rightarrow> string option \<times> 'w) option")
  (cond: "('w \<Rightarrow> bool \<times> 'w) option")
  (tag: "nat option")

text \<open>What the engine takes from outside the repository: \<open>strconv.Quote\<close>,
  \<open>os.Environ\<close> and \<open>(*exec.Cmd).Run\<close> (given the argument vector and the
  environment of the child, \<open>None\<close> for \<open>nil\<close>, that is, inherited).\<close>

record 'w sys =
  strconv_Quote :: "string \<Rightarrow> string"
  os_Environ :: "'w \<Rightarrow> string list"
  cmd_Run :: "string list \<Rightarrow> string list option \<Rightarrow> 'w \<Rightarrow> string option \<times> 'w"

definition commandline :: "(string \<Rightarrow> string) \<Rightarrow> 'w Task \<Rightarrow> string" where
  "commandline quote task =
     (let cmd = map (maybeQuote quote) (command task);
          line = strings_Join cmd '' ''
      in case env task of
           None \<Rightarrow> line
         | Some e \<Rightarrow> if length e > 0 then Env_String quote e @ '' '' @ line else line)"

definition environ :: "'w sys \<Rightarrow> 'w Task \<Rightarrow> 'w \<Rightarrow> string list option" where
  "environ sys task w =
     (case env task of
        None \<Rightarrow> None
      | Some e \<Rightarrow> Some (os_Environ sys w @ map (\<lambda>kv. fst kv @ ''='' @ snd kv) e))"

text \<open>\<open>Println\<close> of the source, for arguments that are strings: one line on the
  standard output, the arguments separated by spaces.\<close>

definition Println :: "string list \<Rightarrow> string" where
  "Println strs = strings_Join strs '' ''"

section \<open>The execution engine\<close>

text \<open>
  What \<open>run\<close> does is recorded as a list of events, in order: the lines written to
  the standard output and to the standard error, every evaluation of a condition (with
  its verdict), every entry into the loop over the sub-tasks, every return of a sub-task
  to its parent's loop (with the value returned), every command executed (with the
  error of \<open>cmd.Run\<close>) and every function called (with its error).  The events of the
  engine's own steps carry the tag of the task they belong to.

  \<open>os.Exit(n)\<close> ends the process: a call that reaches it yields \<open>Exit n\<close> and nothing
  after it happens; a call that returns \<open>v\<close> yields \<open>Return v\<close>.
\<close>

datatype event =
    Stdout string
  | Stderr string
  | CondEval nat bool
  | Descend nat
  | SubtaskReturned nat bool
  | CommandRun nat "string list" "string list option" "string option"
  | FunctionRun nat "string option"

datatype 'a result = Exit int | Return 'a

record 'w state =
  cache :: "nat set"
  world :: 'w

text \<open>Lines 566--568: the guard.  The result is \<open>True\<close> when \<open>run\<close> goes on.\<close>

definition runCond :: "nat \<Rightarrow> 'w Task \<Rightarrow> 'w state \<Rightarrow> bool \<times> event list \<times> 'w state" where
  "runCond t task s =
     (case cond task of
        None \<Rightarrow> (True, [], s)
      | Some c \<Rightarrow>
          (let (b, w') = c (world s)
           in (b, [CondEval t b], s\<lparr>world := w'\<rparr>)))"

text \<open>Lines 578--590: the task's own command.\<close>

definition runCommand ::
  "'w sys \<Rightarrow> nat \<Rightarrow> 'w Task \<Rightarrow> bool \<Rightarrow> 'w state \<Rightarrow> bool result \<times> event list \<times> 'w state" where
  "runCommand sys t task worked s =
     (if length (command task) > 0 then
        (let line = Println [''Running'', commandline (strconv_Quote sys) task];
             envp = environ sys task (world s);
             (err, w') = cmd_Run sys (command task) envp (world s)
         in case err of
              Some e \<Rightarrow>
                (Exit 1, [Stdout line, CommandRun t (command task) envp (Some e), Stderr e],
                 s\<lparr>world := w'\<rparr>)
            | None \<Rightarrow>
                (Return True, [Stdout line, CommandRun t (command task) envp None],
                 s\<lparr>world := w'\<rparr>))
      else (Return worked, [], s))"

text \<open>Lines 592--599: the task's own function.\<close>

definition runFunction ::
  "nat \<Rightarrow> 'w Task \<Rightarrow> bool \<Rightarrow> 'w state \<Rightarrow> bool result \<times> event list \<times> 'w state" where
  "runFunction t task worked s =
     (case func task of
        None \<Rightarrow> (Return worked, [], s)
      | Some f \<Rightarrow>
          (let (err, w') = f (world s)
           in case err of
                Some e \<Rightarrow> (Exit 1, [FunctionRun t (Some e), Stderr e], s\<lparr>world := w'\<rparr>)
              | None \<Rightarrow> (Return True, [FunctionRun t None], s\<lparr>world := w'\<rparr>)))"

text \<open>
  \<open>run\<close> (lines 556--602) and its loop over the sub-tasks (lines 572--576), which
  carries the variable \<open>worked\<close>.  The map \<open>cache\<close> is shared by all calls (a Go map is
  a reference), so the cache is threaded through the state.
\<close>

fun run :: "'w sys \<Rightarrow> 'w Task \<Rightarrow> 'w state \<Rightarrow> bool result \<times> event list \<times> 'w state"
  and runSubtasks ::
    "'w sys \<Rightarrow> nat \<Rightarrow> 'w Task list \<Rightarrow> bool \<Rightarrow> 'w state \<Rightarrow> bool result \<times> event list \<times> 'w state"
where
  "run sys (Task nm df ts cmd ev fn cd tg) s =
     (case tg of
        None \<Rightarrow> (Exit 1, [Stderr ''Task values must not be created directly''], s)
      | Some t \<Rightarrow>
          if t \<in> cache s then (Return False, [], s)
          else
            (let s1 = s\<lparr>cache := insert t (cache s)\<rparr> in
             case runCond t (Task nm df ts cmd ev fn cd tg) s1 of
               (False, e2, s2) \<Rightarrow> (Return False, e2, s2)
             | (True, e2, s2) \<Rightarrow>
                 (case runSubtasks sys t ts False s2 of
                    (Exit c, e3, s3) \<Rightarrow> (Exit c, e2 @ [Descend t] @ e3, s3)
                  | (Return worked, e3, s3) \<Rightarrow>
                      (case runCommand sys t (Task nm df ts cmd ev fn cd tg) worked s3 of
                         (Exit c, e4, s4) \<Rightarrow> (Exit c, e2 @ [Descend t] @ e3 @ e4, s4)
                       | (Return worked', e4, s4) \<Rightarrow>
                           (case runFunction t (Task nm df ts cmd ev fn cd tg) worked' s4 of
                              (r, e5, s5) \<Rightarrow> (r, e2 @ [Descend t] @ e3 @ e4 @ e5, s5))))))"
| "runSubtasks sys p [] worked s = (Return worked, [], s)"
| "runSubtasks sys p (subtask # rest) worked s =
     (case run sys subtask s of
        (Exit c, e1, s1) \<Rightarrow> (Exit c, e1, s1)
      | (Return b, e1, s1) \<Rightarrow>
          (case runSubtasks sys p rest (if b then True else worked) s1 of
             (r, e2, s2) \<Rightarrow> (r, e1 @ [SubtaskReturned p b] @ e2, s2)))"

text \<open>
  The end of \<open>Main\<close> (lines 723--730): one cache for all selected targets, a line for
  every target whose \<open>run\<close> reports no work, then \<open>os.Exit(0)\<close>.  The result is the
  exit code of the process.
\<close>

fun Main_loop :: "'w sys \<Rightarrow> 'w Task list \<Rightarrow> 'w state \<Rightarrow> unit result \<times> event list \<times> 'w state" where
  "Main_loop sys [] s = (Return (), [], s)"
| "Main_loop sys (task # rest) s =
     (case run sys task s of
        (Exit c, e1, s1) \<Rightarrow> (Exit c, e1, s1)
      | (Return b, e1, s1) \<Rightarrow>
          (let e = (if \<not> b then [Stdout (Println [''Nothing to be done for'', name task])] else [])
           in case Main_loop sys rest s1 of
                (r, e2, s2) \<Rightarrow> (r, e1 @ e @ e2, s2)))"

definition Main_run :: "'w sys \<Rightarrow> 'w Task list \<Rightarrow> 'w \<Rightarrow> int \<times> event list \<times> 'w" where
  "Main_run sys targets w =
     (case Main_loop sys targets \<lparr>cache = {}, world = w\<rparr> of
        (Exit c, e, s) \<Rightarrow> (c, e, world s)
      | (Return u, e, s) \<Rightarrow> (0, e, world s))"

section \<open>Reading the event list\<close>

text \<open>
  The four things \<open>run\<close> does for a task and that the engine promises to do at most
  once for an identity, and the events that record them.  \<open>keys e\<close> lists, in order,
  the (kind, tag) pairs of the events of \<open>e\<close>; \<open>occurrences k t e\<close> counts how often
  identity \<open>t\<close> had \<open>k\<close> done to it in \<open>e\<close>.  \<open>returns e\<close> lists the (parent tag, value)
  pairs of the sub-task returns in \<open>e\<close>.
\<close>

datatype kind = KCond | KChildren | KCommand | KFunction

fun evKey :: "event \<Rightarrow> (kind \<times> nat) list" where
  "evKey (CondEval t b) = [(KCond, t)]"
| "evKey (Descend t) = [(KChildren, t)]"
| "evKey (CommandRun t c e r) = [(KCommand, t)]"
| "evKey (FunctionRun t r) = [(KFunction, t)]"
| "evKey _ = []"

fun keys :: "event list \<Rightarrow> (kind \<times> nat) list" where
  "keys [] = []"
| "keys (e # es) = evKey e @ keys es"

fun returns :: "event list \<Rightarrow> (nat \<times> bool) list" where
  "returns [] = []"
| "returns (SubtaskReturned p b # es) = (p, b) # returns es"
| "returns (e # es) = returns es"

definition occurrences :: "kind \<Rightarrow> nat \<Rightarrow> event list \<Rightarrow> nat" where
  "occurrences k t e = count_list (keys e) (k, t)"

text \<open>A command that did not run to a zero exit status (\<open>cmd.Run\<close> returned an error:
  a non-zero exit or a failure to launch), or a function that returned an error.\<close>

fun failure :: "event \<Rightarrow> string option" where
  "failure (CommandRun t c e (Some msg)) = Some msg"
| "failure (FunctionRun t (Some msg)) = Some msg"
| "failure _ = None"


definition nofail :: "event list \<Rightarrow> bool" where
  "nofail e \<longleftrightarrow> (\<forall>ev \<in> set e. failure ev = None)"

definition fatal :: "'a result \<Rightarrow> event list \<Rightarrow> bool" where
  "fatal r e \<longleftrightarrow>
     (\<forall>ev \<in> set e. \<forall>msg. failure ev = Some msg \<longrightarrow>
        r = Exit 1 \<and> (\<exists>pre. e = pre @ [ev, Stderr msg]))"

text \<open>
  The calls of \<open>run\<close> that a call of \<open>run\<close> makes.  \<open>subcall sys task s path\<close> follows
  \<open>path\<close>, a list of positions in the \<open>tasks\<close> slices, down from \<open>task\<close>: it is the
  sub-task that \<open>run sys task s\<close> calls \<open>run\<close> on there and the state in which it does
  so, or \<open>None\<close> when that call is not made (the task at some level is \<open>nil\<close>-tagged,
  already visited or gated, the position is out of range, or an earlier sub-task ended
  the process).
\<close>

fun subcall :: "'w sys \<Rightarrow> 'w Task \<Rightarrow> 'w state \<Rightarrow> nat list \<Rightarrow> ('w Task \<times> 'w state) option" where
  "subcall sys task s [] = Some (task, s)"
| "subcall sys task s (i # path) =
     (case tag task of
        None \<Rightarrow> None
      | Some t \<Rightarrow>
          if t \<in> cache s then None
          else
            (case runCond t task (s\<lparr>cache := insert t (cache s)\<rparr>) of
               (False, e2, s2) \<Rightarrow> None
             | (True, e2, s2) \<Rightarrow>
                 if i < length (tasks task) then
                   (case runSubtasks sys t (take i (tasks task)) False s2 of
                      (Exit c, e1, s1) \<Rightarrow> None
                    | (Return worked, e1, s1) \<Rightarrow> subcall sys (tasks task ! i) s1 path)
                 else None))"

section \<open>Example task trees\<close>

text \<open>
  A system in which the command \<open>false\<close> fails and every other command succeeds, and
  a diamond: the target \<open>all\<close> has the groups \<open>lib\<close> and \<open>bin\<close>, which share the
  command task with tag 3.  \<open>ex_gated\<close> is a task with a condition that is false,
  \<open>ex_wrapper\<close> an unconditional parent of it, \<open>ex_failing\<close> a target whose command
  fails, \<open>ex_boom\<close> a task whose function returns an error, and \<open>ex_outer\<close> a target
  with \<open>ex_boom\<close> between two other sub-tasks and a command of its own.
\<close>

definition ex_sys :: "unit sys" where
  "ex_sys = \<lparr>strconv_Quote = id, os_Environ = (\<lambda>w. []),
     cmd_Run = (\<lambda>cmd envp w. (if cmd = [''false''] then Some ''exit status 1'' else None, w))\<rparr>"

definition ex_leaf :: "unit Task" where
  "ex_leaf = Task [] False [] [''touch'', ''out''] None None None (Some 3)"

definition ex_lib :: "unit Task" where
  "ex_lib = Task ''lib'' False [ex_leaf] [] None None None (Some 1)"

definition ex_bin :: "unit Task" where
  "ex_bin = Task ''bin'' False [ex_leaf] [] None None None (Some 2)"

definition ex_diamond :: "unit Task" where
  "ex_diamond = Task ''all'' True [ex_lib, ex_bin] [] None None None (Some 0)"

definition ex_st0 :: "unit state" where
  "ex_st0 = \<lparr>cache = {}, world = ()\<rparr>"

definition ex_st1 :: "unit state" where
  "ex_st1 = \<lparr>cache = {0, 1, 2, 3}, world = ()\<rparr>"

definition ex_diamond_events :: "event list" where
  "ex_diamond_events =
     [Descend 0, Descend 1, Descend 3, Stdout ''Running touch out'',
      CommandRun 3 [''touch'', ''out''] None None, SubtaskReturned 1 True,
      SubtaskReturned 0 True, Descend 2, SubtaskReturned 2 False,
      SubtaskReturned 0 False]"

definition ex_never :: "unit \<Rightarrow> bool \<times> unit" where
  "ex_never w = (False, w)"

definition ex_gated :: "unit Task" where
  "ex_gated = Task [] False [ex_leaf] [''echo'', ''hi''] None None (Some ex_never) (Some 5)"

definition ex_wrapper :: "unit Task" where
  "ex_wrapper = Task ''wrap'' False [ex_gated] [] None None None (Some 6)"

definition ex_failing :: "unit Task" where
  "ex_failing = Task ''bad'' False [] [''false''] None None None (Some 7)"

definition ex_fail_events :: "event list" where
  "ex_fail_events =
     [Descend 7, Stdout ''Running false'', CommandRun 7 [''false''] None (Some ''exit status 1''),
      Stderr ''exit status 1'']"

definition ex_fail_fn :: "unit \<Rightarrow> string option \<times> unit" where
  "ex_fail_fn w = (Some ''boom failed'', w)"

definition ex_boom :: "unit Task" where
  "ex_boom = Task [] False [] [] None (Some ex_fail_fn) None (Some 8)"

definition ex_outer :: "unit Task" where
  "ex_outer = Task ''outer'' False [ex_lib, ex_boom, ex_bin] [''echo'', ''done''] None None None (Some 9)"

definition ex_bin_events :: "event list" where
  "ex_bin_events =
     [Descend 2, Descend 3, Stdout ''Running touch out'',
      CommandRun 3 [''touch'', ''out''] None None, SubtaskReturned 2 True]"

definition ex_outer_events :: "event list" where
  "ex_outer_events =
     [Descend 9, Descend 1, SubtaskReturned 1 False, SubtaskReturned 9 False, Descend 8,
      FunctionRun 8 (Some ''boom failed''), Stderr ''boom failed'']"

section \<open>File conditions\<close>

text \<open>
  \<open>os.Stat\<close> is the file system as the conditions see it: for a path it returns an
  error (\<open>Inl\<close>), of which \<open>os.IsNotExist\<close> may or may not hold, or a \<open>FileInfo\<close>
  (\<open>Inr\<close>), of which the conditions read only \<open>ModTime()\<close>, an instant, here an
  integer number of nanoseconds.
\<close>

datatype error = Error (isNotExist: bool) (errorString: string)

type_synonym filesystem = "string \<Rightarrow> error + int"

definition os_IsNotExist :: "error \<Rightarrow> bool" where
  "os_IsNotExist err = isNotExist err"

definition Exists :: "filesystem \<Rightarrow> string \<Rightarrow> bool" where
  "Exists fs path = (case fs path of Inr info \<Rightarrow> True | Inl err \<Rightarrow> \<not> os_IsNotExist err)"

definition Missing :: "filesystem \<Rightarrow> string \<Rightarrow> bool" where
  "Missing fs path = (\<not> Exists fs path)"

text \<open>
  \<open>Outdated\<close> (lines 460--489).  The closure reads the package variable \<open>globalDeps\<close>
  and the file system when it is called; both are arguments here.  \<open>sources\<close> is what
  the function \<open>sources\<close> returns when called, \<open>None\<close> for a \<open>nil\<close> function.  The
  result is the verdict and the lines written to the standard error.
\<close>

fun Outdated_loop :: "filesystem \<Rightarrow> string \<Rightarrow> int \<Rightarrow> string list \<Rightarrow> bool \<times> string list" where
  "Outdated_loop fs target targetTime [] = (False, [])"
| "Outdated_loop fs target targetTime (source # deps) =
     (case fs source of
        Inl err \<Rightarrow> (True, [target @ '' dependency '' @ source @ '': '' @ errorString err])
      | Inr modTime \<Rightarrow>
          if modTime > targetTime then (True, [])
          else Outdated_loop fs target targetTime deps)"

definition Outdated ::
  "string list \<Rightarrow> string \<Rightarrow> string list option \<Rightarrow> filesystem \<Rightarrow> bool \<times> string list" where
  "Outdated globalDeps target sources fs =
     (case fs target of
        Inl err \<Rightarrow> (True, [])
      | Inr targetTime \<Rightarrow>
          (let deps = (case sources of None \<Rightarrow> globalDeps | Some srcs \<Rightarrow> globalDeps @ srcs)
           in Outdated_loop fs target targetTime deps))"

text \<open>The beginning of \<open>Main\<close> (lines 606--609): the new value of \<open>globalDeps\<close>.\<close>

definition Main_globalDeps :: "string list \<Rightarrow> string \<Rightarrow> string list \<Rightarrow> string list" where
  "Main_globalDeps globalDeps main deps =
     (if main \<noteq> [] then globalDeps @ [main] else globalDeps) @ deps"

text \<open>
  The staleness rule in the words of the specification, for comparison: the target does
  not exist, or a dependency (global or per call) does not exist, or a dependency's
  modification time is strictly after the target's.  ``Exists'' is the repository's own
  \<open>Exists\<close>.
\<close>

definition modifiedAfter :: "filesystem \<Rightarrow> string \<Rightarrow> string \<Rightarrow> bool" where
  "modifiedAfter fs dep target =
     (case fs dep of
        Inl err \<Rightarrow> False
      | Inr depTime \<Rightarrow> (case fs target of Inl err \<Rightarrow> False | Inr targetTime \<Rightarrow> depTime > targetTime))"

definition Outdated_spec ::
  "string list \<Rightarrow> string \<Rightarrow> string list option \<Rightarrow> filesystem \<Rightarrow> bool" where
  "Outdated_spec globalDeps target sources fs =
     (\<not> Exists fs target \<or>
      list_ex (\<lambda>dep. \<not> Exists fs dep \<or> modifiedAfter fs dep target)
        (globalDeps @ (case sources of None \<Rightarrow> [] | Some srcs \<Rightarrow> srcs)))"

text \<open>Example file systems: in \<open>ex_fs_denied\<close> the stat of \<open>out\<close> fails with a
  permission error and every other path has modification time 5; in \<open>ex_fs\<close> the
  target \<open>out\<close> has time 5, \<open>make.go\<close> time 9, \<open>gone\<close> does not exist, and every
  other path has time 1.\<close>

definition ex_fs_denied :: filesystem where
  "ex_fs_denied path =
     (if path = ''out'' then Inl (Error False ''stat out: permission denied'') else Inr 5)"

definition ex_fs :: filesystem where
  "ex_fs path =
     (if path = ''out'' then Inr 5
      else if path = ''make.go'' then Inr 9
      else if path = ''gone'' then Inl (Error True ''stat gone: no such file or directory'')
      else Inr 1)"

section \<open>Variables\<close>

text \<open>
  The package variables \<open>Vars\<close> and \<open>varDefaults\<close> (lines 151--152), two Go maps, and
  \<open>Getvar\<close> (lines 155--165), which updates \<open>varDefaults\<close>.  A \<open>panic\<close> is the result
  \<open>Inl\<close> with the value of the panic.
\<close>

datatype panic = Panic string

record vars =
  Vars :: "string \<rightharpoonup> string"
  varDefaults :: "string \<rightharpoonup> string"

definition Getvar_different :: "vars \<Rightarrow> string \<Rightarrow> string \<Rightarrow> bool" where
  "Getvar_different st key defaultValue =
     (case varDefaults st key of None \<Rightarrow> False | Some v \<Rightarrow> v \<noteq> defaultValue)"

definition Getvar :: "string \<Rightarrow> string \<Rightarrow> vars \<Rightarrow> panic + string \<times> vars" where
  "Getvar key defaultValue st =
     (if Getvar_different st key defaultValue then
        Inl (Panic (''Variable '' @ key @ '' accessed with different default values''))
      else
        (let st' = st\<lparr>varDefaults := (varDefaults st)(key \<mapsto> defaultValue)\<rparr>
         in case Vars st' key of
              Some v \<Rightarrow> Inr (v, st')
            | None \<Rightarrow> Inr (defaultValue, st')))"

text \<open>A run of queries, as the construction of a task tree makes them: each is
  \<open>Getvar key defaultValue\<close>; the first panic ends the run.\<close>

fun Getvar_all :: "(string \<times> string) list \<Rightarrow> vars \<Rightarrow> panic + vars" where
  "Getvar_all [] st = Inr st"
| "Getvar_all ((key, defaultValue) # rest) st =
     (case Getvar key defaultValue st of
        Inl p \<Rightarrow> Inl p
      | Inr (v, st') \<Rightarrow> Getvar_all rest st')"

definition ex_vars :: vars where
  "ex_vars = \<lparr>Vars = [''CC'' \<mapsto> ''clang''], varDefaults = Map.empty\<rparr>"

section \<open>Validation of the targets\<close>

text \<open>\<open>validateTargets\<close> (lines 733--754); the loop carries the set \<open>names\<close> and the
  result variable \<open>defaults\<close>.  \<open>panic(task.name)\<close> is \<open>Inl (Panic (name task))\<close>.\<close>

fun validateTargets_loop :: "'w Task list \<Rightarrow> string set \<Rightarrow> bool \<Rightarrow> panic + bool" where
  "validateTargets_loop [] names defaults = Inr defaults"
| "validateTargets_loop (task # rest) names defaults =
     (let defaults' = (if isDefault task then True else defaults) in
      if name task \<noteq> [] then
        (if name task = ''help'' then Inl (Panic (name task))
         else if name task \<in> names then Inl (Panic (name task))
         else validateTargets_loop rest (insert (name task) names) defaults')
      else validateTargets_loop rest names defaults')"

definition validateTargets :: "'w Task list \<Rightarrow> panic + bool" where
  "validateTargets targets = validateTargets_loop targets {} False"

text \<open>The non-empty names of a list of targets, in order.\<close>

definition targetNames :: "'w Task list \<Rightarrow> string list" where
  "targetNames targets = filter (\<lambda>n. n \<noteq> []) (map name targets)"

section \<open>The renderings in the words of the specification\<close>

text \<open>
  For comparison with \<open>Env_String\<close>: the pairs in the order of their keys.
\<close>

definition Env_String_bykey :: "(string \<Rightarrow> string) \<Rightarrow> Env \<Rightarrow> string" where
  "Env_String_bykey quote e = strings_Join (map (Env_pair quote) (sort_key fst e)) '' ''"

text \<open>For comparison with \<open>maybeQuote\<close>: an argument wrapped in double quotes.\<close>

definition doubleQuoted :: "string \<Rightarrow> string" where
  "doubleQuoted s = [dquote] @ s @ [dquote]"

definition singleQuoted :: "string \<Rightarrow> string" where
  "singleQuoted s = [squote] @ s @ [squote]"

text \<open>The bytes at which the single-quoted part of an argument with two double
  quotes starts and ends: a double quote or a space.\<close>

definition isBreak :: "char \<Rightarrow> bool" where
  "isBreak c \<longleftrightarrow> c = dquote \<or> c = CHR '' ''"

section \<open>Properties of the engine\<close>

lemma run_nil:
  "tag task = None \<Longrightarrow>
     run sys task s = (Exit 1, [Stderr ''Task values must not be created directly''], s)"
  by (cases task) simp

lemma run_cached:
  "tag task = Some t \<Longrightarrow> t \<in> cache s \<Longrightarrow> run sys task s = (Return False, [], s)"
  by (cases task) simp

lemma run_gated:
  "tag task = Some t \<Longrightarrow> t \<notin> cache s \<Longrightarrow>
   runCond t task (s\<lparr>cache := insert t (cache s)\<rparr>) = (False, e2, s2) \<Longrightarrow>
     run sys task s = (Return False, e2, s2)"
  by (cases task) simp

lemma run_body:
  "tag task = Some t \<Longrightarrow> t \<notin> cache s \<Longrightarrow>
   runCond t task (s\<lparr>cache := insert t (cache s)\<rparr>) = (True, e2, s2) \<Longrightarrow>
     run sys task s =
       (case runSubtasks sys t (tasks task) False s2 of
          (Exit c, e3, s3) \<Rightarrow> (Exit c, e2 @ [Descend t] @ e3, s3)
        | (Return worked, e3, s3) \<Rightarrow>
            (case runCommand sys t task worked s3 of
               (Exit c, e4, s4) \<Rightarrow> (Exit c, e2 @ [Descend t] @ e3 @ e4, s4)
             | (Return worked', e4, s4) \<Rightarrow>
                 (case runFunction t task worked' s4 of
                    (r, e5, s5) \<Rightarrow> (r, e2 @ [Descend t] @ e3 @ e4 @ e5, s5))))"
  by (cases task; clarsimp)

lemma run_cases [consumes 1, case_names NilTag Cached Gated SubExit CmdExit Body]:
  assumes "run sys task s = (r, e, s')"
  obtains
    (NilTag) "tag task = None" "r = Exit 1"
      "e = [Stderr ''Task values must not be created directly'']" "s' = s"
  | (Cached) t where "tag task = Some t" "t \<in> cache s" "r = Return False" "e = []" "s' = s"
  | (Gated) t where "tag task = Some t" "t \<notin> cache s"
      "runCond t task (s\<lparr>cache := insert t (cache s)\<rparr>) = (False, e, s')" "r = Return False"
  | (SubExit) t e2 s2 c e3 where "tag task = Some t" "t \<notin> cache s"
      "runCond t task (s\<lparr>cache := insert t (cache s)\<rparr>) = (True, e2, s2)"
      "runSubtasks sys t (tasks task) False s2 = (Exit c, e3, s')"
      "r = Exit c" "e = e2 @ [Descend t] @ e3"
  | (CmdExit) t e2 s2 w3 e3 s3 c e4 where "tag task = Some t" "t \<notin> cache s"
      "runCond t task (s\<lparr>cache := insert t (cache s)\<rparr>) = (True, e2, s2)"
      "runSubtasks sys t (tasks task) False s2 = (Return w3, e3, s3)"
      "runCommand sys t task w3 s3 = (Exit c, e4, s')"
      "r = Exit c" "e = e2 @ [Descend t] @ e3 @ e4"
  | (Body) t e2 s2 w3 e3 s3 w4 e4 s4 e5 where "tag task = Some t" "t \<notin> cache s"
      "runCond t task (s\<lparr>cache := insert t (cache s)\<rparr>) = (True, e2, s2)"
      "runSubtasks sys t (tasks task) False s2 = (Return w3, e3, s3)"
      "runCommand sys t task w3 s3 = (Return w4, e4, s4)"
      "runFunction t task w4 s4 = (r, e5, s')"
      "e = e2 @ [Descend t] @ e3 @ e4 @ e5"
proof (cases "tag task")
  case None
  from assms have "r = Exit 1" "e = [Stderr ''Task values must not be created directly'']" "s' = s"
    by (simp_all add: run_nil[OF None])
  then show ?thesis by (rule NilTag[OF None])
next
  case (Some t)
  show ?thesis
  proof (cases "t \<in> cache s")
    case True
    from assms have "r = Return False" "e = []" "s' = s"
      by (simp_all add: run_cached[OF Some True])
    then show ?thesis by (rule Cached[OF Some True])
  next
    case False
    obtain b e2 s2 where c: "runCond t task (s\<lparr>cache := insert t (cache s)\<rparr>) = (b, e2, s2)"
      by (cases "runCond t task (s\<lparr>cache := insert t (cache s)\<rparr>)") auto
    show ?thesis
    proof (cases b)
      case False
      with c have c': "runCond t task (s\<lparr>cache := insert t (cache s)\<rparr>) = (False, e2, s2)"
        by simp
      from assms have "r = Return False" "e = e2" "s' = s2"
        by (simp_all add: run_gated[OF Some \<open>t \<notin> cache s\<close> c'])
      with c' show ?thesis by (intro Gated[OF Some \<open>t \<notin> cache s\<close>]) simp_all
    next
      case True
      with c have c': "runCond t task (s\<lparr>cache := insert t (cache s)\<rparr>) = (True, e2, s2)"
        by simp
      note body = run_body[OF Some \<open>t \<notin> cache s\<close> c', of sys]
      obtain r3 e3 s3 where r3: "runSubtasks sys t (tasks task) False s2 = (r3, e3, s3)"
        by (cases "runSubtasks sys t (tasks task) False s2") auto
      show ?thesis
      proof (cases r3)
        case (Exit x)
        with assms body r3 have "r = Exit x" "e = e2 @ [Descend t] @ e3" "s' = s3" by simp_all
        with r3 Exit show ?thesis
          by (intro SubExit[OF Some \<open>t \<notin> cache s\<close> c']) simp_all
      next
        case (Return w3)
        obtain r4 e4 s4 where r4: "runCommand sys t task w3 s3 = (r4, e4, s4)"
          by (cases "runCommand sys t task w3 s3") auto
        show ?thesis
        proof (cases r4)
          case (Exit x)
          with assms body r3 Return r4
          have "r = Exit x" "e = e2 @ [Descend t] @ e3 @ e4" "s' = s4" by simp_all
          with r3 \<open>r3 = Return w3\<close> r4 Exit show ?thesis
            by (intro CmdExit[OF Some \<open>t \<notin> cache s\<close> c']) simp_all
        next
          case (Return w4)
          obtain r5 e5 s5 where r5: "runFunction t task w4 s4 = (r5, e5, s5)"
            by (cases "runFunction t task w4 s4") auto
          with assms body r3 \<open>r3 = Return w3\<close> r4 Return
          have "r = r5" "e = e2 @ [Descend t] @ e3 @ e4 @ e5" "s' = s5" by simp_all
          with r3 \<open>r3 = Return w3\<close> r4 Return r5 show ?thesis
            by (intro Body[OF Some \<open>t \<notin> cache s\<close> c']) simp_all
        qed
      qed
    qed
  qed
qed

lemma runSubtasks_cases [consumes 1, case_names SubtaskExit SubtaskReturn]:
  assumes "runSubtasks sys p (subtask # rest) worked s = (r, e, s')"
  obtains
    (SubtaskExit) c where "run sys subtask s = (Exit c, e, s')" "r = Exit c"
  | (SubtaskReturn) b e1 s1 e2 where "run sys subtask s = (Return b, e1, s1)"
      "runSubtasks sys p rest (if b then True else worked) s1 = (r, e2, s')"
      "e = e1 @ [SubtaskReturned p b] @ e2"
proof -
  obtain r1 e1 s1 where r1: "run sys subtask s = (r1, e1, s1)"
    by (cases "run sys subtask s") auto
  show ?thesis
  proof (cases r1)
    case (Exit c)
    with assms r1 have "r = Exit c" "e = e1" "s' = s1" by simp_all
    with r1 Exit show ?thesis by (intro SubtaskExit) simp_all
  next
    case (Return b)
    obtain r2 e2 s2 where
      r2: "runSubtasks sys p rest (if b then True else worked) s1 = (r2, e2, s2)"
      by (cases "runSubtasks sys p rest (if b then True else worked) s1") auto
    with assms r1 Return have "r = r2" "e = e1 @ [SubtaskReturned p b] @ e2" "s' = s2"
      by simp_all
    with r1 Return r2 show ?thesis by (intro SubtaskReturn) simp_all
  qed
qed

lemma run_runSubtasks_induct [case_names run nil cons]:
  assumes run: "\<And>sys task s.
      (\<And>t e2 s2. tag task = Some t \<Longrightarrow> t \<notin> cache s \<Longrightarrow>
          runCond t task (s\<lparr>cache := insert t (cache s)\<rparr>) = (True, e2, s2) \<Longrightarrow>
          Q sys t (tasks task) False s2) \<Longrightarrow> P sys task s"
    and nil: "\<And>sys p worked s. Q sys p [] worked s"
    and cons: "\<And>sys p subtask rest worked s.
      P sys subtask s \<Longrightarrow>
      (\<And>b e1 s1. run sys subtask s = (Return b, e1, s1) \<Longrightarrow>
          Q sys p rest (if b then True else worked) s1) \<Longrightarrow>
      Q sys p (subtask # rest) worked s"
  shows "P sys task s" and "Q sys p ts worked s"
proof (induction sys task s and sys p ts worked s rule: run_runSubtasks.induct)
  case (1 sys nm df ts cmd ev fn cd tg s)
  show ?case
  proof (rule run)
    fix t e2 s2
    assume "tag (Task nm df ts cmd ev fn cd tg) = Some t" "t \<notin> cache s"
      "runCond t (Task nm df ts cmd ev fn cd tg) (s\<lparr>cache := insert t (cache s)\<rparr>) = (True, e2, s2)"
    then show "Q sys t (tasks (Task nm df ts cmd ev fn cd tg)) False s2"
      using "1.IH"[of t "s\<lparr>cache := insert t (cache s)\<rparr>" True "(e2, s2)" e2 s2] by simp
  qed
next
  case (2 sys p worked s)
  show ?case by (rule nil)
next
  case (3 sys p subtask rest worked s)
  show ?case
  proof (rule cons)
    show "P sys subtask s" by (rule "3.IH"(1))
  next
    fix b e1 s1
    assume "run sys subtask s = (Return b, e1, s1)"
    then show "Q sys p rest (if b then True else worked) s1"
      using "3.IH"(2)[of "Return b" "(e1, s1)" b e1 s1] by simp
  qed
qed

lemma keys_append [simp]: "keys (xs @ ys) = keys xs @ keys ys"
  by (induction xs) auto

lemma returns_append [simp]: "returns (xs @ ys) = returns xs @ returns ys"
  by (induction xs rule: returns.induct) auto










lemma Main_loop_cases [consumes 1, case_names TargetExit TargetReturn]:
  assumes "Main_loop sys (task # rest) s = (r, e, s')"
  obtains
    (TargetExit) c where "run sys task s = (Exit c, e, s')" "r = Exit c"
  | (TargetReturn) b e1 s1 e2 where "run sys task s = (Return b, e1, s1)"
      "Main_loop sys rest s1 = (r, e2, s')"
      "e = e1 @ (if \<not> b then [Stdout (Println [''Nothing to be done for'', name task])] else [])
             @ e2"
proof -
  obtain r1 e1 s1 where r1: "run sys task s = (r1, e1, s1)"
    by (cases "run sys task s") auto
  show ?thesis
  proof (cases r1)
    case (Exit c)
    with assms r1 have "r = Exit c" "e = e1" "s' = s1" by simp_all
    with r1 Exit show ?thesis by (intro TargetExit) simp_all
  next
    case (Return b)
    obtain r2 e2 s2 where r2: "Main_loop sys rest s1 = (r2, e2, s2)"
      by (cases "Main_loop sys rest s1") auto
    with assms r1 Return have "r = r2" "s' = s2"
      "e = e1 @ (if \<not> b then [Stdout (Println [''Nothing to be done for'', name task])] else [])
             @ e2"
      by (simp_all add: Let_def)
    with r1 Return r2 show ?thesis by (intro TargetReturn) simp_all
  qed
qed





lemmas ex_eval = ex_sys_def ex_diamond_def ex_lib_def ex_bin_def ex_leaf_def ex_st0_def ex_st1_def
  ex_diamond_events_def ex_gated_def ex_wrapper_def ex_failing_def ex_fail_events_def ex_never_def
  ex_boom_def ex_outer_def ex_fail_fn_def ex_bin_events_def ex_outer_events_def
  runCond_def runCommand_def
  runFunction_def Println_def commandline_def environ_def maybeQuote_def strings_Contains_def
  strings_Count_def strings_Index_def squote_def dquote_def insert_commute Main_run_def





lemma occurrences_append [simp]:
  "occurrences k t (e1 @ e2) = occurrences k t e1 + occurrences k t e2"
  by (simp add: occurrences_def)

















lemma Main_loop_append:
  "Main_loop sys pre s0 = (Return (), e0, s1) \<Longrightarrow> Main_loop sys rest s1 = (r, e, s') \<Longrightarrow>
     Main_loop sys (pre @ rest) s0 = (r, e0 @ e, s')"
proof (induction pre arbitrary: s0 e0)
  case Nil
  then show ?case by simp
next
  case (Cons task pre)
  from Cons.prems(1) show ?case
  proof (cases rule: Main_loop_cases)
    case (TargetExit c)
    then show ?thesis by simp
  next
    case (TargetReturn b e1 s1' e2)
    from Cons.IH[OF TargetReturn(2) Cons.prems(2)]
    have "Main_loop sys (pre @ rest) s1' = (r, e2 @ e, s')" .
    with TargetReturn(1,3) show ?thesis by (simp add: Let_def)
  qed
qed



lemma nofail_simps [simp]:
  "nofail []"
  "nofail (ev # e) \<longleftrightarrow> failure ev = None \<and> nofail e"
  "nofail (e1 @ e2) \<longleftrightarrow> nofail e1 \<and> nofail e2"
  by (auto simp: nofail_def)

lemma nofail_fatal: "nofail e \<Longrightarrow> fatal r e"
  by (simp add: nofail_def fatal_def)

lemma fatal_Return: "fatal (Return b) e \<Longrightarrow> nofail e"
  unfolding fatal_def nofail_def
proof
  fix ev
  assume a: "\<forall>ev\<in>set e. \<forall>msg. failure ev = Some msg \<longrightarrow>
      Return b = Exit 1 \<and> (\<exists>pre. e = pre @ [ev, Stderr msg])" and m: "ev \<in> set e"
  show "failure ev = None"
  proof (cases "failure ev")
    case None
    then show ?thesis .
  next
    case (Some msg)
    with a m have "Return b = Exit 1" by blast
    then show ?thesis by simp
  qed
qed

lemma fatal_append:
  assumes "nofail e1" "fatal r e2"
  shows "fatal r (e1 @ e2)"
  unfolding fatal_def
proof (intro ballI allI impI)
  fix ev msg
  assume m: "ev \<in> set (e1 @ e2)" and f: "failure ev = Some msg"
  from assms(1) f have "ev \<notin> set e1" by (auto simp: nofail_def)
  with m have "ev \<in> set e2" by simp
  with assms(2) f obtain pre where "r = Exit 1" "e2 = pre @ [ev, Stderr msg]"
    unfolding fatal_def by blast
  then have "r = Exit 1" "e1 @ e2 = (e1 @ pre) @ [ev, Stderr msg]" by simp_all
  then show "r = Exit 1 \<and> (\<exists>pre. e1 @ e2 = pre @ [ev, Stderr msg])" by blast
qed

lemma fatal_convert: "fatal (Exit c :: 'a result) e \<Longrightarrow> fatal (Exit c :: 'b result) e"
  by (simp add: fatal_def)

lemma runCond_nofail: "runCond t task s = (b, e, s') \<Longrightarrow> nofail e"
  by (auto simp: runCond_def split: option.splits prod.splits)

lemma runCommand_fatal: "runCommand sys t task w s = (r, e, s') \<Longrightarrow> fatal r e"
proof (cases "length (command task) > 0")
  case False
  assume "runCommand sys t task w s = (r, e, s')"
  with False have "e = []" by (simp add: runCommand_def)
  then show ?thesis by (simp add: nofail_fatal)
next
  case True
  assume a: "runCommand sys t task w s = (r, e, s')"
  obtain err w' where c:
    "cmd_Run sys (command task) (environ sys task (world s)) (world s) = (err, w')"
    by (cases "cmd_Run sys (command task) (environ sys task (world s)) (world s)") auto
  show ?thesis
  proof (cases err)
    case None
    with a True c have "nofail e" by (auto simp: runCommand_def Let_def)
    then show ?thesis by (rule nofail_fatal)
  next
    case (Some msg)
    with a True c have "r = Exit 1"
      "e = [Stdout (Println [''Running'', commandline (strconv_Quote sys) task])] @
           [CommandRun t (command task) (environ sys task (world s)) (Some msg), Stderr msg]"
      by (auto simp: runCommand_def Let_def)
    then show ?thesis unfolding fatal_def by auto
  qed
qed

lemma runFunction_fatal: "runFunction t task w s = (r, e, s') \<Longrightarrow> fatal r e"
proof (cases "func task")
  case None
  assume "runFunction t task w s = (r, e, s')"
  with None have "e = []" by (simp add: runFunction_def)
  then show ?thesis by (simp add: nofail_fatal)
next
  case (Some f)
  assume a: "runFunction t task w s = (r, e, s')"
  obtain err w' where c: "f (world s) = (err, w')" by (cases "f (world s)") auto
  show ?thesis
  proof (cases err)
    case None
    with a Some c have "nofail e" by (auto simp: runFunction_def Let_def)
    then show ?thesis by (rule nofail_fatal)
  next
    case (Some msg)
    with a \<open>func task = Some f\<close> c have "r = Exit 1"
      "e = [] @ [FunctionRun t (Some msg), Stderr msg]"
      by (auto simp: runFunction_def Let_def)
    then show ?thesis unfolding fatal_def by auto
  qed
qed

lemma run_fatal:
  "\<forall>r e s'. run sys task s = (r, e, s') \<longrightarrow> fatal r e"
  "\<forall>r e s'. runSubtasks sys p ts w s = (r, e, s') \<longrightarrow> fatal r e"
proof (induction sys task s and sys p ts w s rule: run_runSubtasks_induct)
  case (run sys task s)
  show ?case
  proof (intro allI impI)
    fix r e s'
    assume "run sys task s = (r, e, s')"
    then show "fatal r e"
    proof (cases rule: run_cases)
      case NilTag
      then show ?thesis by (simp add: nofail_fatal)
    next
      case (Cached t)
      then show ?thesis by (simp add: nofail_fatal)
    next
      case (Gated t)
      from runCond_nofail[OF Gated(3)] show ?thesis by (rule nofail_fatal)
    next
      case (SubExit t e2 s2 c e3)
      from run[OF SubExit(1-3)] SubExit(4) have "fatal (Exit c :: bool result) e3" by blast
      with runCond_nofail[OF SubExit(3)] have "fatal (Exit c :: bool result) ((e2 @ [Descend t]) @ e3)"
        by (intro fatal_append) simp_all
      then show ?thesis unfolding SubExit(5,6) by simp
    next
      case (CmdExit t e2 s2 w3 e3 s3 c e4)
      from run[OF CmdExit(1-3)] CmdExit(4) have "fatal (Return w3) e3" by blast
      then have "nofail e3" by (rule fatal_Return)
      with runCond_nofail[OF CmdExit(3)] runCommand_fatal[OF CmdExit(5)]
      have "fatal (Exit c :: bool result) ((e2 @ [Descend t] @ e3) @ e4)"
        by (intro fatal_append) simp_all
      then show ?thesis unfolding CmdExit(6,7) by simp
    next
      case (Body t e2 s2 w3 e3 s3 w4 e4 s4 e5)
      from run[OF Body(1-3)] Body(4) have "fatal (Return w3) e3" by blast
      then have "nofail e3" by (rule fatal_Return)
      moreover from runCommand_fatal[OF Body(5)] have "nofail e4" by (rule fatal_Return)
      ultimately have "fatal r ((e2 @ [Descend t] @ e3 @ e4) @ e5)"
        using runCond_nofail[OF Body(3)] runFunction_fatal[OF Body(6)]
        by (intro fatal_append) simp_all
      then show ?thesis unfolding Body(7) by simp
    qed
  qed
next
  case (nil sys p worked s)
  show ?case by (simp add: nofail_fatal)
next
  case (cons sys p subtask rest worked s)
  show ?case
  proof (intro allI impI)
    fix r e s'
    assume "runSubtasks sys p (subtask # rest) worked s = (r, e, s')"
    then show "fatal r e"
    proof (cases rule: runSubtasks_cases)
      case (SubtaskExit c)
      with cons(1) show ?thesis by blast
    next
      case (SubtaskReturn b e1 s1 e2)
      from cons(1) SubtaskReturn(1) have "fatal (Return b) e1" by blast
      then have "nofail e1" by (rule fatal_Return)
      moreover from cons(2)[OF SubtaskReturn(1)] SubtaskReturn(2) have "fatal r e2" by blast
      ultimately have "fatal r ((e1 @ [SubtaskReturned p b]) @ e2)"
        by (intro fatal_append) simp_all
      then show ?thesis unfolding SubtaskReturn(3) by simp
    qed
  qed
qed

lemma Main_loop_fatal: "Main_loop sys targets s = (r, e, s') \<Longrightarrow> fatal r e"
proof (induction targets arbitrary: s r e s')
  case Nil
  then show ?case by (simp add: nofail_fatal)
next
  case (Cons task rest)
  from Cons.prems show ?case
  proof (cases rule: Main_loop_cases)
    case (TargetExit c)
    with run_fatal(1) have "fatal (Exit c :: bool result) e" by blast
    then show ?thesis unfolding TargetExit(2) by (rule fatal_convert)
  next
    case (TargetReturn b e1 s1 e2)
    from run_fatal(1) TargetReturn(1) have "fatal (Return b) e1" by blast
    then have "nofail e1" by (rule fatal_Return)
    with Cons.IH[OF TargetReturn(2)]
    have "fatal r ((e1 @ (if \<not> b then [Stdout (Println [''Nothing to be done for'', name task])]
        else [])) @ e2)"
      by (intro fatal_append) simp_all
    then show ?thesis unfolding TargetReturn(3) by simp
  qed
qed

lemma ex_Main_failing: "Main_run ex_sys [ex_failing, ex_diamond] () = (1, ex_fail_events, ())"
  by (simp add: ex_eval)

lemma runSubtasks_append:
  "runSubtasks sys p pre worked s0 = (Return w1, e0, s1) \<Longrightarrow>
   runSubtasks sys p rest w1 s1 = (r, e, s') \<Longrightarrow>
     runSubtasks sys p (pre @ rest) worked s0 = (r, e0 @ e, s')"
proof (induction pre arbitrary: worked s0 e0)
  case Nil
  then show ?case by simp
next
  case (Cons subtask pre)
  from Cons.prems(1) show ?case
  proof (cases rule: runSubtasks_cases)
    case (SubtaskExit c)
    then show ?thesis by simp
  next
    case (SubtaskReturn b e1 s1' e2)
    from Cons.IH[OF SubtaskReturn(2) Cons.prems(2)]
    have "runSubtasks sys p (pre @ rest) (if b then True else worked) s1' = (r, e2 @ e, s')" .
    with SubtaskReturn(1,3) show ?thesis by simp
  qed
qed

lemma run_subtasks_exit:
  assumes "tag task = Some t" "t \<notin> cache s"
    "runCond t task (s\<lparr>cache := insert t (cache s)\<rparr>) = (True, e2, s2)"
    "runSubtasks sys t (tasks task) False s2 = (Exit c, e3, s3)"
  shows "run sys task s = (Exit c, e2 @ [Descend t] @ e3, s3)"
  using run_body[OF assms(1-3), of sys] assms(4) by simp

lemma run_command_fails:
  assumes "tag task = Some t" "t \<notin> cache s"
    "runCond t task (s\<lparr>cache := insert t (cache s)\<rparr>) = (True, e2, s2)"
    "runSubtasks sys t (tasks task) False s2 = (Return w3, e3, s3)"
    "command task \<noteq> []"
    "cmd_Run sys (command task) (environ sys task (world s3)) (world s3) = (Some msg, w')"
  shows "run sys task s =
    (Exit 1,
     e2 @ [Descend t] @ e3 @
       [Stdout (Println [''Running'', commandline (strconv_Quote sys) task]),
        CommandRun t (command task) (environ sys task (world s3)) (Some msg), Stderr msg],
     s3\<lparr>world := w'\<rparr>)"
proof -
  have "runCommand sys t task w3 s3 =
      (Exit 1,
       [Stdout (Println [''Running'', commandline (strconv_Quote sys) task]),
        CommandRun t (command task) (environ sys task (world s3)) (Some msg), Stderr msg],
       s3\<lparr>world := w'\<rparr>)"
    using assms(5,6) by (simp add: runCommand_def Let_def)
  with run_body[OF assms(1-3), of sys] assms(4) show ?thesis by simp
qed

lemma run_function_fails:
  assumes "tag task = Some t" "t \<notin> cache s"
    "runCond t task (s\<lparr>cache := insert t (cache s)\<rparr>) = (True, e2, s2)"
    "runSubtasks sys t (tasks task) False s2 = (Return w3, e3, s3)"
    "runCommand sys t task w3 s3 = (Return w4, e4, s4)"
    "func task = Some f" "f (world s4) = (Some msg, w')"
  shows "run sys task s =
    (Exit 1, e2 @ [Descend t] @ e3 @ e4 @ [FunctionRun t (Some msg), Stderr msg],
     s4\<lparr>world := w'\<rparr>)"
proof -
  have "runFunction t task w4 s4 =
      (Exit 1, [FunctionRun t (Some msg), Stderr msg], s4\<lparr>world := w'\<rparr>)"
    using assms(6,7) by (simp add: runFunction_def)
  with run_body[OF assms(1-3), of sys] assms(4,5) show ?thesis by simp
qed

lemma subcall_exit:
  "subcall sys root s0 path = Some (task, s) \<Longrightarrow> run sys task s = (Exit c, e, s') \<Longrightarrow>
     \<exists>pre. run sys root s0 = (Exit c, pre @ e, s')"
proof (induction path arbitrary: root s0)
  case Nil
  then have "run sys root s0 = (Exit c, [] @ e, s')" by simp
  then show ?case by blast
next
  case (Cons i path)
  from Cons.prems(1) obtain t where t: "tag root = Some t"
    by (cases "tag root") simp_all
  from Cons.prems(1) t have nc: "t \<notin> cache s0" by (simp split: if_splits)
  obtain b e2 s2 where c: "runCond t root (s0\<lparr>cache := insert t (cache s0)\<rparr>) = (b, e2, s2)"
    by (cases "runCond t root (s0\<lparr>cache := insert t (cache s0)\<rparr>)") auto
  from Cons.prems(1) t nc c have b: "b" by (cases b) simp_all
  with c have c': "runCond t root (s0\<lparr>cache := insert t (cache s0)\<rparr>) = (True, e2, s2)"
    by simp
  from Cons.prems(1) t nc c' have i: "i < length (tasks root)" by (simp split: if_splits)
  obtain r1 e1 s1 where p: "runSubtasks sys t (take i (tasks root)) False s2 = (r1, e1, s1)"
    by (cases "runSubtasks sys t (take i (tasks root)) False s2") auto
  from Cons.prems(1) t nc c' i p obtain w1 where r1: "r1 = Return w1"
    by (cases r1) simp_all
  from Cons.prems(1) t nc c' i p r1 have "subcall sys (tasks root ! i) s1 path = Some (task, s)"
    by simp
  from Cons.IH[OF this Cons.prems(2)] obtain pre where
    ch: "run sys (tasks root ! i) s1 = (Exit c, pre @ e, s')" by blast
  then have "runSubtasks sys t (tasks root ! i # drop (Suc i) (tasks root)) w1 s1 =
      (Exit c, pre @ e, s')" by simp
  with p r1 have "runSubtasks sys t (take i (tasks root) @ tasks root ! i # drop (Suc i) (tasks root))
      False s2 = (Exit c, e1 @ pre @ e, s')"
    by (intro runSubtasks_append) simp_all
  with i have "runSubtasks sys t (tasks root) False s2 = (Exit c, e1 @ pre @ e, s')"
    by (simp add: id_take_nth_drop[symmetric])
  from run_subtasks_exit[OF t nc c' this]
  have "run sys root s0 = (Exit c, (e2 @ [Descend t] @ e1 @ pre) @ e, s')" by simp
  then show ?case by blast
qed

lemma Main_run_exit:
  assumes "Main_loop sys before \<lparr>cache = {}, world = w0\<rparr> = (Return (), e0, s0)"
    "run sys root s0 = (Exit c, e, s')"
  shows "Main_run sys (before @ root # after) w0 = (c, e0 @ e, world s')"
proof -
  from assms(2) have "Main_loop sys (root # after) s0 = (Exit c, e, s')" by simp
  from Main_loop_append[OF assms(1) this] show ?thesis by (simp add: Main_run_def)
qed

text \<open>
  \<^bold>\<open>C5\<close> (fatal failures).  Let the call \<open>run sys root s0\<close> reach, along \<open>path\<close>, the
  call of \<open>run\<close> on \<open>task\<close>, and let that call pass the guard and see its sub-tasks
  return.  If then the command of \<open>task\<close> is not empty and \<open>cmd.Run\<close> returns an error
  (a non-zero exit or a failure to launch), or the command step returns and the function
  of \<open>task\<close> returns an error, the whole call \<open>run sys root s0\<close> is \<open>os.Exit(1)\<close>, never
  a returned value; its last two events are the failed call and the error on the
  standard error, and its final state is the one right after the failed call, so that
  no sibling, no parent's own command or function, and nothing else ran after it.  In
  the driver, a target whose \<open>run\<close> exits ends the process with that code, whatever
  targets are listed after it.  Conversely, wherever a failed command or function
  occurs in the events of \<open>run\<close> or of the driver, the result is exit code 1 and the
  report of that failure is the last event.
\<close>

theorem failure_is_fatal:
  "(subcall sys root s0 path = Some (task, s) \<and> tag task = Some t \<and> t \<notin> cache s \<and>
    runCond t task (s\<lparr>cache := insert t (cache s)\<rparr>) = (True, e2, s2) \<and>
    runSubtasks sys t (tasks task) False s2 = (Return w3, e3, s3) \<and>
    command task \<noteq> [] \<and>
    cmd_Run sys (command task) (environ sys task (world s3)) (world s3) = (Some msg, w') \<longrightarrow>
      (\<exists>pre. run sys root s0 =
         (Exit 1,
          pre @ [CommandRun t (command task) (environ sys task (world s3)) (Some msg), Stderr msg],
          s3\<lparr>world := w'\<rparr>))) \<and>
   (subcall sys root s0 path = Some (task, s) \<and> tag task = Some t \<and> t \<notin> cache s \<and>
    runCond t task (s\<lparr>cache := insert t (cache s)\<rparr>) = (True, e2, s2) \<and>
    runSubtasks sys t (tasks task) False s2 = (Return w3, e3, s3) \<and>
    runCommand sys t task w3 s3 = (Return w4, e4, s4) \<and>
    func task = Some f \<and> f (world s4) = (Some msg, w') \<longrightarrow>
      (\<exists>pre. run sys root s0 =
         (Exit 1, pre @ [FunctionRun t (Some msg), Stderr msg], s4\<lparr>world := w'\<rparr>))) \<and>
   (Main_loop sys before \<lparr>cache = {}, world = w0\<rparr> = (Return (), e0, s0) \<and>
    run sys root s0 = (Exit c, e, s') \<longrightarrow>
      Main_run sys (before @ root # after) w0 = (c, e0 @ e, world s')) \<and>
   (run sys root s0 = (r, e, s') \<and> ev \<in> set e \<and> failure ev = Some m \<longrightarrow>
      r = Exit 1 \<and> (\<exists>pre. e = pre @ [ev, Stderr m])) \<and>
   (Main_run sys targets w0 = (code, e', w'') \<and> ev \<in> set e' \<and> failure ev = Some m \<longrightarrow>
      code = 1 \<and> (\<exists>pre. e' = pre @ [ev, Stderr m]))"
proof -
  have 1: "\<exists>pre. run sys root s0 =
         (Exit 1,
          pre @ [CommandRun t (command task) (environ sys task (world s3)) (Some msg), Stderr msg],
          s3\<lparr>world := w'\<rparr>)"
    if a: "subcall sys root s0 path = Some (task, s)" "tag task = Some t" "t \<notin> cache s"
      "runCond t task (s\<lparr>cache := insert t (cache s)\<rparr>) = (True, e2, s2)"
      "runSubtasks sys t (tasks task) False s2 = (Return w3, e3, s3)"
      "command task \<noteq> []"
      "cmd_Run sys (command task) (environ sys task (world s3)) (world s3) = (Some msg, w')"
  proof -
    from subcall_exit[OF a(1) run_command_fails[OF a(2-7)]] obtain pre where
      "run sys root s0 =
        (Exit 1,
         pre @ e2 @ [Descend t] @ e3 @
           [Stdout (Println [''Running'', commandline (strconv_Quote sys) task]),
            CommandRun t (command task) (environ sys task (world s3)) (Some msg), Stderr msg],
         s3\<lparr>world := w'\<rparr>)" by blast
    then have "run sys root s0 =
        (Exit 1,
         (pre @ e2 @ [Descend t] @ e3 @
           [Stdout (Println [''Running'', commandline (strconv_Quote sys) task])]) @
           [CommandRun t (command task) (environ sys task (world s3)) (Some msg), Stderr msg],
         s3\<lparr>world := w'\<rparr>)" by simp
    then show ?thesis by blast
  qed
  have 2: "\<exists>pre. run sys root s0 =
         (Exit 1, pre @ [FunctionRun t (Some msg), Stderr msg], s4\<lparr>world := w'\<rparr>)"
    if a: "subcall sys root s0 path = Some (task, s)" "tag task = Some t" "t \<notin> cache s"
      "runCond t task (s\<lparr>cache := insert t (cache s)\<rparr>) = (True, e2, s2)"
      "runSubtasks sys t (tasks task) False s2 = (Return w3, e3, s3)"
      "runCommand sys t task w3 s3 = (Return w4, e4, s4)"
      "func task = Some f" "f (world s4) = (Some msg, w')"
  proof -
    from subcall_exit[OF a(1) run_function_fails[OF a(2-8)]] obtain pre where
      "run sys root s0 =
        (Exit 1, pre @ e2 @ [Descend t] @ e3 @ e4 @ [FunctionRun t (Some msg), Stderr msg],
         s4\<lparr>world := w'\<rparr>)" by blast
    then have "run sys root s0 =
        (Exit 1, (pre @ e2 @ [Descend t] @ e3 @ e4) @ [FunctionRun t (Some msg), Stderr msg],
         s4\<lparr>world := w'\<rparr>)" by simp
    then show ?thesis by blast
  qed
  have 3: "Main_run sys (before @ root # after) w0 = (c, e0 @ e, world s')"
    if "Main_loop sys before \<lparr>cache = {}, world = w0\<rparr> = (Return (), e0, s0)"
      "run sys root s0 = (Exit c, e, s')"
    using that by (rule Main_run_exit)
  have 4: "r = Exit 1 \<and> (\<exists>pre. e = pre @ [ev, Stderr m])"
    if a: "run sys root s0 = (r, e, s')" "ev \<in> set e" "failure ev = Some m"
  proof -
    from run_fatal(1) a(1) have "fatal r e" by blast
    with a(2,3) show ?thesis unfolding fatal_def by blast
  qed
  have 5: "code = 1 \<and> (\<exists>pre. e' = pre @ [ev, Stderr m])"
    if a: "Main_run sys targets w0 = (code, e', w'')" "ev \<in> set e'" "failure ev = Some m"
  proof -
    obtain r1 e1 s1 where l: "Main_loop sys targets \<lparr>cache = {}, world = w0\<rparr> = (r1, e1, s1)"
      by (cases "Main_loop sys targets \<lparr>cache = {}, world = w0\<rparr>") auto
    from a(1) l have e: "e' = e1" by (cases r1) (simp_all add: Main_run_def)
    from Main_loop_fatal[OF l] a(2,3) have x: "r1 = Exit 1" "\<exists>pre. e1 = pre @ [ev, Stderr m]"
      unfolding fatal_def e by blast+
    from a(1) l x(1) have "code = 1" by (simp add: Main_run_def)
    with x(2) show ?thesis unfolding e by simp
  qed
  show ?thesis
    apply (intro conjI impI)
    subgoal by (elim conjE) (rule 1)
    subgoal by (elim conjE) (rule 2)
    subgoal by (elim conjE) (rule 3)
    subgoal using 4 by blast
    subgoal using 4 by blast
    subgoal using 5 by blast
    subgoal using 5 by blast
    done
qed

theorem failure_is_fatal_witness:
  "(subcall ex_sys ex_failing ex_st0 [] = Some (ex_failing, ex_st0) \<and>
    tag ex_failing = Some 7 \<and> 7 \<notin> cache ex_st0 \<and>
    runCond 7 ex_failing (ex_st0\<lparr>cache := insert 7 (cache ex_st0)\<rparr>) =
      (True, [], \<lparr>cache = {7}, world = ()\<rparr>) \<and>
    runSubtasks ex_sys 7 (tasks ex_failing) False \<lparr>cache = {7}, world = ()\<rparr> =
      (Return False, [], \<lparr>cache = {7}, world = ()\<rparr>) \<and>
    command ex_failing \<noteq> [] \<and>
    cmd_Run ex_sys (command ex_failing)
      (environ ex_sys ex_failing (world \<lparr>cache = {7}, world = ()\<rparr>))
      (world \<lparr>cache = {7}, world = ()\<rparr>) = (Some ''exit status 1'', ())) \<and>
   (\<exists>pre. run ex_sys ex_failing ex_st0 =
      (Exit 1,
       pre @ [CommandRun 7 (command ex_failing)
                (environ ex_sys ex_failing (world \<lparr>cache = {7}, world = ()\<rparr>))
                (Some ''exit status 1''), Stderr ''exit status 1''],
       \<lparr>cache = {7}, world = ()\<rparr>\<lparr>world := ()\<rparr>)) \<and>
   (subcall ex_sys ex_outer ex_st0 [1] = Some (ex_boom, \<lparr>cache = {1, 3, 9}, world = ()\<rparr>) \<and>
    tag ex_boom = Some 8 \<and> 8 \<notin> cache \<lparr>cache = {1, 3, 9}, world = ()\<rparr> \<and>
    runCond 8 ex_boom (\<lparr>cache = {1, 3, 9}, world = ()\<rparr>
        \<lparr>cache := insert 8 (cache \<lparr>cache = {1, 3, 9}, world = ()\<rparr>)\<rparr>) =
      (True, [], \<lparr>cache = {1, 3, 8, 9}, world = ()\<rparr>) \<and>
    runSubtasks ex_sys 8 (tasks ex_boom) False \<lparr>cache = {1, 3, 8, 9}, world = ()\<rparr> =
      (Return False, [], \<lparr>cache = {1, 3, 8, 9}, world = ()\<rparr>) \<and>
    runCommand ex_sys 8 ex_boom False \<lparr>cache = {1, 3, 8, 9}, world = ()\<rparr> =
      (Return False, [], \<lparr>cache = {1, 3, 8, 9}, world = ()\<rparr>) \<and>
    func ex_boom = Some ex_fail_fn \<and>
    ex_fail_fn (world \<lparr>cache = {1, 3, 8, 9}, world = ()\<rparr>) = (Some ''boom failed'', ())) \<and>
   (\<exists>pre. run ex_sys ex_outer ex_st0 =
      (Exit 1, pre @ [FunctionRun 8 (Some ''boom failed''), Stderr ''boom failed''],
       \<lparr>cache = {1, 3, 8, 9}, world = ()\<rparr>\<lparr>world := ()\<rparr>)) \<and>
   (Main_loop ex_sys [ex_bin] \<lparr>cache = {}, world = ()\<rparr> =
      (Return (), ex_bin_events, \<lparr>cache = {2, 3}, world = ()\<rparr>) \<and>
    run ex_sys ex_outer \<lparr>cache = {2, 3}, world = ()\<rparr> =
      (Exit 1, ex_outer_events, \<lparr>cache = {1, 2, 3, 8, 9}, world = ()\<rparr>)) \<and>
   Main_run ex_sys ([ex_bin] @ ex_outer # [ex_diamond]) () =
     (1, ex_bin_events @ ex_outer_events, world \<lparr>cache = {1, 2, 3, 8, 9}, world = ()\<rparr>) \<and>
   (FunctionRun 8 (Some ''boom failed'') \<in> set ex_outer_events \<and>
    failure (FunctionRun 8 (Some ''boom failed'')) = Some ''boom failed'') \<and>
   (\<exists>pre. ex_outer_events = pre @ [FunctionRun 8 (Some ''boom failed''), Stderr ''boom failed'']) \<and>
   (Main_run ex_sys [ex_failing, ex_diamond] () = (1, ex_fail_events, ()) \<and>
    CommandRun 7 [''false''] None (Some ''exit status 1'') \<in> set ex_fail_events \<and>
    failure (CommandRun 7 [''false''] None (Some ''exit status 1'')) = Some ''exit status 1'') \<and>
   (\<exists>pre. ex_fail_events =
      pre @ [CommandRun 7 [''false''] None (Some ''exit status 1''), Stderr ''exit status 1''])"
proof -
  have c: "subcall ex_sys ex_failing ex_st0 [] = Some (ex_failing, ex_st0) \<and>
    tag ex_failing = Some 7 \<and> 7 \<notin> cache ex_st0 \<and>
    runCond 7 ex_failing (ex_st0\<lparr>cache := insert 7 (cache ex_st0)\<rparr>) =
      (True, [], \<lparr>cache = {7}, world = ()\<rparr>) \<and>
    runSubtasks ex_sys 7 (tasks ex_failing) False \<lparr>cache = {7}, world = ()\<rparr> =
      (Return False, [], \<lparr>cache = {7}, world = ()\<rparr>) \<and>
    command ex_failing \<noteq> [] \<and>
    cmd_Run ex_sys (command ex_failing)
      (environ ex_sys ex_failing (world \<lparr>cache = {7}, world = ()\<rparr>))
      (world \<lparr>cache = {7}, world = ()\<rparr>) = (Some ''exit status 1'', ())"
    by (simp add: ex_eval)
  have f: "subcall ex_sys ex_outer ex_st0 [1] = Some (ex_boom, \<lparr>cache = {1, 3, 9}, world = ()\<rparr>) \<and>
    tag ex_boom = Some 8 \<and> 8 \<notin> cache \<lparr>cache = {1, 3, 9}, world = ()\<rparr> \<and>
    runCond 8 ex_boom (\<lparr>cache = {1, 3, 9}, world = ()\<rparr>
        \<lparr>cache := insert 8 (cache \<lparr>cache = {1, 3, 9}, world = ()\<rparr>)\<rparr>) =
      (True, [], \<lparr>cache = {1, 3, 8, 9}, world = ()\<rparr>) \<and>
    runSubtasks ex_sys 8 (tasks ex_boom) False \<lparr>cache = {1, 3, 8, 9}, world = ()\<rparr> =
      (Return False, [], \<lparr>cache = {1, 3, 8, 9}, world = ()\<rparr>) \<and>
    runCommand ex_sys 8 ex_boom False \<lparr>cache = {1, 3, 8, 9}, world = ()\<rparr> =
      (Return False, [], \<lparr>cache = {1, 3, 8, 9}, world = ()\<rparr>) \<and>
    func ex_boom = Some ex_fail_fn \<and>
    ex_fail_fn (world \<lparr>cache = {1, 3, 8, 9}, world = ()\<rparr>) = (Some ''boom failed'', ())"
    by (simp add: ex_eval)
  have m: "Main_loop ex_sys [ex_bin] \<lparr>cache = {}, world = ()\<rparr> =
      (Return (), ex_bin_events, \<lparr>cache = {2, 3}, world = ()\<rparr>) \<and>
    run ex_sys ex_outer \<lparr>cache = {2, 3}, world = ()\<rparr> =
      (Exit 1, ex_outer_events, \<lparr>cache = {1, 2, 3, 8, 9}, world = ()\<rparr>)"
    by (simp add: ex_eval)
  have v: "FunctionRun 8 (Some ''boom failed'') \<in> set ex_outer_events \<and>
    failure (FunctionRun 8 (Some ''boom failed'')) = Some ''boom failed''"
    by (simp add: ex_outer_events_def)
  note cw = failure_is_fatal[where sys = ex_sys and root = ex_failing and ?s0.0 = ex_st0
      and path = "[]" and task = ex_failing and s = ex_st0 and t = 7 and ?e2.0 = "[]"
      and ?s2.0 = "\<lparr>cache = {7}, world = ()\<rparr>" and ?w3.0 = False and ?e3.0 = "[]"
      and ?s3.0 = "\<lparr>cache = {7}, world = ()\<rparr>" and msg = "''exit status 1''" and w' = "()"]
  note fw = failure_is_fatal[where sys = ex_sys and root = ex_outer and ?s0.0 = ex_st0
      and path = "[1]" and task = ex_boom and s = "\<lparr>cache = {1, 3, 9}, world = ()\<rparr>"
      and t = 8 and ?e2.0 = "[]"
      and ?s2.0 = "\<lparr>cache = {1, 3, 8, 9}, world = ()\<rparr>" and ?w3.0 = False and ?e3.0 = "[]"
      and ?s3.0 = "\<lparr>cache = {1, 3, 8, 9}, world = ()\<rparr>" and ?w4.0 = False and ?e4.0 = "[]"
      and ?s4.0 = "\<lparr>cache = {1, 3, 8, 9}, world = ()\<rparr>" and f = ex_fail_fn
      and msg = "''boom failed''" and w' = "()"]
  note mw = failure_is_fatal[where sys = ex_sys and root = ex_outer
      and ?s0.0 = "\<lparr>cache = {2, 3}, world = ()\<rparr>" and before = "[ex_bin]" and ?w0.0 = "()"
      and ?e0.0 = ex_bin_events and c = 1 and r = "Exit 1" and e = ex_outer_events
      and s' = "\<lparr>cache = {1, 2, 3, 8, 9}, world = ()\<rparr>" and after = "[ex_diamond]"
      and ev = "FunctionRun 8 (Some ''boom failed'')" and m = "''boom failed''"]
  from cw c have c1: "\<exists>pre. run ex_sys ex_failing ex_st0 =
      (Exit 1,
       pre @ [CommandRun 7 (command ex_failing)
                (environ ex_sys ex_failing (world \<lparr>cache = {7}, world = ()\<rparr>))
                (Some ''exit status 1''), Stderr ''exit status 1''],
       \<lparr>cache = {7}, world = ()\<rparr>\<lparr>world := ()\<rparr>)"
    by blast
  from fw f have f1: "\<exists>pre. run ex_sys ex_outer ex_st0 =
      (Exit 1, pre @ [FunctionRun 8 (Some ''boom failed''), Stderr ''boom failed''],
       \<lparr>cache = {1, 3, 8, 9}, world = ()\<rparr>\<lparr>world := ()\<rparr>)"
    by blast
  from mw m have m1: "Main_run ex_sys ([ex_bin] @ ex_outer # [ex_diamond]) () =
     (1, ex_bin_events @ ex_outer_events, world \<lparr>cache = {1, 2, 3, 8, 9}, world = ()\<rparr>)"
    by blast
  from mw m v have v1:
    "\<exists>pre. ex_outer_events = pre @ [FunctionRun 8 (Some ''boom failed''), Stderr ''boom failed'']"
    by blast
  have g: "Main_run ex_sys [ex_failing, ex_diamond] () = (1, ex_fail_events, ()) \<and>
    CommandRun 7 [''false''] None (Some ''exit status 1'') \<in> set ex_fail_events \<and>
    failure (CommandRun 7 [''false''] None (Some ''exit status 1'')) = Some ''exit status 1''"
    using ex_Main_failing by (simp add: ex_fail_events_def)
  note gw = failure_is_fatal[where sys = ex_sys and targets = "[ex_failing, ex_diamond]"
      and ?w0.0 = "()" and code = 1 and e' = ex_fail_events and w'' = "()"
      and ev = "CommandRun 7 [''false''] None (Some ''exit status 1'')"
      and m = "''exit status 1''"]
  from gw[THEN conjunct2, THEN conjunct2, THEN conjunct2, THEN conjunct2] g
  have g1: "\<exists>pre. ex_fail_events =
      pre @ [CommandRun 7 [''false''] None (Some ''exit status 1''), Stderr ''exit status 1'']"
    by blast
  show ?thesis by (intro conjI c c1 f f1 m m1 v v1 g g1)
qed


section \<open>Conditions, variables, validation and rendering\<close>

text \<open>
  \<^bold>\<open>C10\<close> (existence).  \<open>Exists\<close> is true exactly when the stat succeeds or fails with
  an error that is not a not-exist error, and so false only on a not-exist error;
  \<open>Missing\<close> is true exactly when the stat fails with a not-exist error.
\<close>

theorem Exists_Missing:
  "(Exists fs path \<longleftrightarrow>
      (\<exists>info. fs path = Inr info) \<or> (\<exists>err. fs path = Inl err \<and> \<not> os_IsNotExist err)) \<and>
   (Missing fs path \<longleftrightarrow> (\<exists>err. fs path = Inl err \<and> os_IsNotExist err))"
  by (cases "fs path") (simp_all add: Exists_def Missing_def)

theorem Exists_Missing_witness:
  "Exists ex_fs_denied ''out'' \<and> \<not> Missing ex_fs_denied ''out'' \<and>
   ex_fs_denied ''out'' = Inl (Error False ''stat out: permission denied'') \<and>
   \<not> os_IsNotExist (Error False ''stat out: permission denied'') \<and>
   Missing ex_fs ''gone'' \<and> \<not> Exists ex_fs ''gone'' \<and> Exists ex_fs ''out''"
  using Exists_Missing[of ex_fs_denied "''out''"] Exists_Missing[of ex_fs "''gone''"]
    Exists_Missing[of ex_fs "''out''"]
  by (simp add: ex_fs_denied_def ex_fs_def os_IsNotExist_def Missing_def)

lemma Outdated_loop_iff:
  "fst (Outdated_loop fs target targetTime deps) \<longleftrightarrow>
     (\<exists>d \<in> set deps. isl (fs d) \<or> (\<exists>t. fs d = Inr t \<and> t > targetTime))"
proof (induction deps)
  case Nil
  show ?case by simp
next
  case (Cons source deps)
  show ?case
  proof (cases "fs source")
    case (Inl err)
    then show ?thesis by simp
  next
    case (Inr t)
    with Cons show ?thesis by simp
  qed
qed

lemma set_Main_globalDeps:
  "set (Main_globalDeps g0 main deps) = set g0 \<union> (if main = [] then {} else {main}) \<union> set deps"
  by (auto simp: Main_globalDeps_def)

lemma modifiedAfter_iff:
  "fs target = Inr targetTime \<Longrightarrow>
     modifiedAfter fs d target \<longleftrightarrow> (\<exists>t. fs d = Inr t \<and> t > targetTime)"
  by (cases "fs d") (simp_all add: modifiedAfter_def)

text \<open>
  \<^bold>\<open>C3\<close> (staleness), as the code has it.  With the global dependencies that \<open>Main\<close>
  registered (those already there, then \<open>main\<close> when it is not empty, then \<open>deps\<close>), the
  condition \<open>Outdated target sources\<close> is true exactly when the stat of the target fails
  (with any error, not only a not-exist error), or, for some dependency among the
  global ones and the ones of this call, the stat fails (with any error) or the
  modification time is strictly after the target's.  The global dependencies count
  whatever \<open>sources\<close> is, also when it is \<open>nil\<close> or returns nothing.
\<close>

theorem Outdated_iff:
  "fst (Outdated (Main_globalDeps g0 main deps) target sources fs) \<longleftrightarrow>
     isl (fs target) \<or>
     (\<exists>d \<in> set g0 \<union> (if main = [] then {} else {main}) \<union> set deps \<union>
            (case sources of None \<Rightarrow> {} | Some srcs \<Rightarrow> set srcs).
        isl (fs d) \<or> modifiedAfter fs d target)"
proof (cases "fs target")
  case (Inl err)
  then show ?thesis by (simp add: Outdated_def)
next
  case (Inr targetTime)
  note m = modifiedAfter_iff[where fs = fs and target = target, OF Inr]
  show ?thesis
  proof (cases sources)
    case None
    with Inr show ?thesis
      by (simp add: Outdated_def Outdated_loop_iff set_Main_globalDeps m)
  next
    case (Some srcs)
    with Inr show ?thesis
      by (simp add: Outdated_def Outdated_loop_iff set_Main_globalDeps m Un_assoc)
  qed
qed

theorem Outdated_iff_witness:
  "fst (Outdated (Main_globalDeps [] ''make.go'' [''go.mod'']) ''out'' None ex_fs) \<and>
   \<not> isl (ex_fs ''out'') \<and> modifiedAfter ex_fs ''make.go'' ''out'' \<and>
   \<not> fst (Outdated (Main_globalDeps [] [] [''go.mod'']) ''out'' (Some [''a.c'']) ex_fs) \<and>
   fst (Outdated (Main_globalDeps [] [] [''go.mod'']) ''out'' (Some [''a.c'', ''gone'']) ex_fs)"
  using Outdated_iff[of "[]" "''make.go''" "[''go.mod'']" "''out''" None ex_fs]
    Outdated_iff[of "[]" "[]" "[''go.mod'']" "''out''" "Some [''a.c'']" ex_fs]
    Outdated_iff[of "[]" "[]" "[''go.mod'']" "''out''" "Some [''a.c'', ''gone'']" ex_fs]
  by (simp add: ex_fs_def modifiedAfter_def)

text \<open>
  The rule as the specification words it, with ``does not exist'', differs from the code
  when a stat fails for another reason: the target \<open>out\<close> cannot be examined (permission
  denied), its one dependency exists and cannot be said to be newer, the specification's
  rule says ``not outdated'', and \<open>Outdated\<close> says ``outdated''.
\<close>

theorem Outdated_spec_counterexample:
  "fst (Outdated [''make.go''] ''out'' None ex_fs_denied) \<noteq>
     Outdated_spec [''make.go''] ''out'' None ex_fs_denied"
  by (simp add: Outdated_def Outdated_spec_def Exists_def os_IsNotExist_def modifiedAfter_def
      ex_fs_denied_def)

lemma Getvar_Inr:
  "Getvar key d st = Inr (v, st') \<Longrightarrow>
     Vars st' = Vars st \<and> varDefaults st' = (varDefaults st)(key \<mapsto> d) \<and>
     (varDefaults st key = None \<or> varDefaults st key = Some d)"
  by (auto simp: Getvar_def Getvar_different_def Let_def split: if_splits option.splits)

lemma Getvar_all_keeps:
  "Getvar_all qs st = Inr st' \<Longrightarrow> varDefaults st key = Some d \<Longrightarrow>
     Vars st' = Vars st \<and> varDefaults st' key = Some d"
proof (induction qs arbitrary: st)
  case Nil
  then show ?case by simp
next
  case (Cons q qs)
  obtain k dv where q: "q = (k, dv)" by (cases q)
  from Cons.prems(1) q obtain v st1 where g: "Getvar k dv st = Inr (v, st1)"
    and r: "Getvar_all qs st1 = Inr st'"
    by (auto split: sum.splits)
  note g1 = Getvar_Inr[OF g]
  have "varDefaults st1 key = Some d"
  proof (cases "k = key")
    case True
    with g1 Cons.prems(2) show ?thesis by auto
  next
    case False
    with g1 Cons.prems(2) show ?thesis by simp
  qed
  from Cons.IH[OF r this] g1 show ?case by simp
qed

lemma Getvar_again:
  assumes "varDefaults st key = Some d"
  shows "Getvar key d st = Inr (case Vars st key of Some v \<Rightarrow> v | None \<Rightarrow> d, st)"
proof -
  have "(varDefaults st)(key \<mapsto> d) = varDefaults st" using assms by (simp add: fun_upd_idem)
  then have "st\<lparr>varDefaults := (varDefaults st)(key \<mapsto> d)\<rparr> = st" by simp
  with assms show ?thesis
    by (simp add: Getvar_def Getvar_different_def Let_def split: option.splits)
qed

text \<open>
  \<^bold>\<open>C6\<close> (one default per variable).  After a query \<open>Getvar key d1\<close> that returned, and
  any further queries that returned, a query of \<open>key\<close> with a default other than \<open>d1\<close>
  panics, with the message naming the variable, and a query of \<open>key\<close> with \<open>d1\<close> again
  returns the same value and leaves the registry as it is.
\<close>

theorem Getvar_default_consistency:
  assumes "Getvar key d1 st = Inr (v1, st1)" and "Getvar_all between st1 = Inr st2"
  shows "(d2 \<noteq> d1 \<longrightarrow>
            Getvar key d2 st2 =
              Inl (Panic (''Variable '' @ key @ '' accessed with different default values''))) \<and>
         Getvar key d1 st2 = Inr (v1, st2)"
proof -
  from Getvar_Inr[OF assms(1)] have 1: "Vars st1 = Vars st" "varDefaults st1 key = Some d1"
    by simp_all
  from Getvar_all_keeps[OF assms(2) 1(2)] have 2: "Vars st2 = Vars st1" "varDefaults st2 key = Some d1"
    by simp_all
  from assms(1) have v1: "v1 = (case Vars st key of Some v \<Rightarrow> v | None \<Rightarrow> d1)"
    by (auto simp: Getvar_def Let_def split: if_splits option.splits)
  have a: "Getvar key d2 st2 =
      Inl (Panic (''Variable '' @ key @ '' accessed with different default values''))"
    if "d2 \<noteq> d1"
    using that 2(2) by (simp add: Getvar_def Getvar_different_def)
  have b: "Getvar key d1 st2 = Inr (v1, st2)"
    using Getvar_again[OF 2(2)] v1 1(1) 2(1) by simp
  from a b show ?thesis by blast
qed

theorem Getvar_default_consistency_witness:
  "Getvar ''CC'' ''gcc'' ex_vars =
     Inr (''clang'', \<lparr>Vars = [''CC'' \<mapsto> ''clang''], varDefaults = [''CC'' \<mapsto> ''gcc'']\<rparr>) \<and>
   Getvar_all [(''LD'', ''ld'')]
       \<lparr>Vars = [''CC'' \<mapsto> ''clang''], varDefaults = [''CC'' \<mapsto> ''gcc'']\<rparr> =
     Inr \<lparr>Vars = [''CC'' \<mapsto> ''clang''], varDefaults = [''CC'' \<mapsto> ''gcc'', ''LD'' \<mapsto> ''ld'']\<rparr> \<and>
   Getvar ''CC'' ''cc''
       \<lparr>Vars = [''CC'' \<mapsto> ''clang''], varDefaults = [''CC'' \<mapsto> ''gcc'', ''LD'' \<mapsto> ''ld'']\<rparr> =
     Inl (Panic ''Variable CC accessed with different default values'') \<and>
   Getvar ''CC'' ''gcc''
       \<lparr>Vars = [''CC'' \<mapsto> ''clang''], varDefaults = [''CC'' \<mapsto> ''gcc'', ''LD'' \<mapsto> ''ld'']\<rparr> =
     Inr (''clang'',
       \<lparr>Vars = [''CC'' \<mapsto> ''clang''], varDefaults = [''CC'' \<mapsto> ''gcc'', ''LD'' \<mapsto> ''ld'']\<rparr>)"
proof -
  have 1: "Getvar ''CC'' ''gcc'' ex_vars =
     Inr (''clang'', \<lparr>Vars = [''CC'' \<mapsto> ''clang''], varDefaults = [''CC'' \<mapsto> ''gcc'']\<rparr>)"
    by (simp add: Getvar_def Getvar_different_def ex_vars_def)
  have 2: "Getvar_all [(''LD'', ''ld'')]
       \<lparr>Vars = [''CC'' \<mapsto> ''clang''], varDefaults = [''CC'' \<mapsto> ''gcc'']\<rparr> =
     Inr \<lparr>Vars = [''CC'' \<mapsto> ''clang''], varDefaults = [''CC'' \<mapsto> ''gcc'', ''LD'' \<mapsto> ''ld'']\<rparr>"
    by (simp add: Getvar_def Getvar_different_def)
  from Getvar_default_consistency[OF 1 2, of "''cc''"] 1 2 show ?thesis by simp
qed

lemma validateTargets_loop_ok:
  "\<not> (''help'' \<in> set (targetNames targets) \<or> \<not> distinct (targetNames targets) \<or>
       set (targetNames targets) \<inter> names \<noteq> {}) \<Longrightarrow>
   validateTargets_loop targets names defaults = Inr (defaults \<or> (\<exists>t \<in> set targets. isDefault t))"
proof (induction targets arbitrary: names defaults)
  case Nil
  show ?case by simp
next
  case (Cons task rest)
  show ?case
  proof (cases "name task = []")
    case True
    with Cons.prems have "\<not> (''help'' \<in> set (targetNames rest) \<or> \<not> distinct (targetNames rest) \<or>
       set (targetNames rest) \<inter> names \<noteq> {})"
      by (simp add: targetNames_def)
    from Cons.IH[OF this] True show ?thesis by (auto simp: Let_def)
  next
    case False
    with Cons.prems have p: "name task \<noteq> ''help''" "name task \<notin> names"
      "\<not> (''help'' \<in> set (targetNames rest) \<or> \<not> distinct (targetNames rest) \<or>
       set (targetNames rest) \<inter> insert (name task) names \<noteq> {})"
      by (auto simp: targetNames_def)
    from Cons.IH[OF p(3)] False p(1,2) show ?thesis by (auto simp: Let_def)
  qed
qed

lemma validateTargets_loop_panic:
  "''help'' \<in> set (targetNames targets) \<or> \<not> distinct (targetNames targets) \<or>
       set (targetNames targets) \<inter> names \<noteq> {} \<Longrightarrow>
   \<exists>n \<in> set (targetNames targets). validateTargets_loop targets names defaults = Inl (Panic n)"
proof (induction targets arbitrary: names defaults)
  case Nil
  then show ?case by (simp add: targetNames_def)
next
  case (Cons task rest)
  show ?case
  proof (cases "name task = []")
    case True
    with Cons.prems have "''help'' \<in> set (targetNames rest) \<or> \<not> distinct (targetNames rest) \<or>
       set (targetNames rest) \<inter> names \<noteq> {}"
      by (simp add: targetNames_def)
    from Cons.IH[OF this] True show ?thesis by (auto simp: Let_def targetNames_def)
  next
    case False
    show ?thesis
    proof (cases "name task = ''help'' \<or> name task \<in> names")
      case True
      with False show ?thesis by (auto simp: Let_def targetNames_def)
    next
      case n: False
      with False Cons.prems have "''help'' \<in> set (targetNames rest) \<or> \<not> distinct (targetNames rest) \<or>
       set (targetNames rest) \<inter> insert (name task) names \<noteq> {}"
        by (auto simp: targetNames_def)
      from Cons.IH[OF this] False n show ?thesis by (auto simp: Let_def targetNames_def)
    qed
  qed
qed

text \<open>
  \<^bold>\<open>C7\<close> (validation).  \<open>validateTargets\<close> panics (with one of the names) when two
  targets have the same non-empty name or a target is named \<open>help\<close>; otherwise it
  returns, and the value is whether some target is marked default.
\<close>

theorem validateTargets_correct:
  "(''help'' \<in> set (targetNames targets) \<or> \<not> distinct (targetNames targets) \<longrightarrow>
      (\<exists>n \<in> set (targetNames targets). validateTargets targets = Inl (Panic n))) \<and>
   (\<not> (''help'' \<in> set (targetNames targets) \<or> \<not> distinct (targetNames targets)) \<longrightarrow>
      validateTargets targets = Inr (\<exists>t \<in> set targets. isDefault t))"
proof (rule conjI; rule impI)
  assume "''help'' \<in> set (targetNames targets) \<or> \<not> distinct (targetNames targets)"
  then have "''help'' \<in> set (targetNames targets) \<or> \<not> distinct (targetNames targets) \<or>
       set (targetNames targets) \<inter> {} \<noteq> {}" by simp
  from validateTargets_loop_panic[OF this]
  show "\<exists>n \<in> set (targetNames targets). validateTargets targets = Inl (Panic n)"
    by (simp add: validateTargets_def)
next
  assume "\<not> (''help'' \<in> set (targetNames targets) \<or> \<not> distinct (targetNames targets))"
  then have "\<not> (''help'' \<in> set (targetNames targets) \<or> \<not> distinct (targetNames targets) \<or>
       set (targetNames targets) \<inter> {} \<noteq> {})" by simp
  from validateTargets_loop_ok[OF this, of False]
  show "validateTargets targets = Inr (\<exists>t \<in> set targets. isDefault t)"
    by (simp add: validateTargets_def)
qed

theorem validateTargets_correct_witness:
  "\<not> distinct (targetNames [ex_lib, ex_gated, ex_lib]) \<and>
   validateTargets [ex_lib, ex_gated, ex_lib] = Inl (Panic ''lib'') \<and>
   \<not> (''help'' \<in> set (targetNames [ex_diamond, ex_gated, ex_lib]) \<or>
      \<not> distinct (targetNames [ex_diamond, ex_gated, ex_lib])) \<and>
   validateTargets [ex_diamond, ex_gated, ex_lib] = Inr True"
  using validateTargets_correct[of "[ex_lib, ex_gated, ex_lib]"]
    validateTargets_correct[of "[ex_diamond, ex_gated, ex_lib]"]
  by (simp add: targetNames_def ex_lib_def ex_gated_def ex_diamond_def)

lemma sort_cong_mset: "mset xs = mset ys \<Longrightarrow> sort xs = sort (ys :: string list)"
  by (rule properties_for_sort) simp_all

lemma Env_same_entries:
  assumes "distinct (map fst e1)" "distinct (map fst e2)" "map_of e1 = map_of e2"
  shows "mset e1 = mset (e2 :: Env)"
proof -
  from assms have "set e1 = set e2" by (simp add: map_of_inject_set)
  moreover from assms(1,2) have "distinct e1" "distinct e2" by (simp_all add: distinct_map)
  ultimately show ?thesis by (simp add: set_eq_iff_mset_eq_distinct)
qed

text \<open>
  \<^bold>\<open>C8\<close> (environment rendering), as the code has it.  \<open>Env.String\<close> joins with single
  spaces the rendered pairs \<open>maybeQuote(k)=maybeQuote(v)\<close> of the map, sorted
  lexicographically as whole strings; two iteration orders of the same map (two
  association lists with distinct keys and the same lookups) render to the same string.
\<close>

theorem Env_String_deterministic:
  "(\<exists>ps. Env_String quote e = strings_Join ps '' '' \<and> sorted ps \<and>
          mset ps = mset (map (Env_pair quote) e)) \<and>
   (distinct (map fst e1) \<and> distinct (map fst e2) \<and> map_of e1 = map_of e2 \<longrightarrow>
      Env_String quote e1 = Env_String quote e2)"
proof (rule conjI)
  have "Env_String quote e = strings_Join (sort (map (Env_pair quote) e)) '' '' \<and>
      sorted (sort (map (Env_pair quote) e)) \<and>
      mset (sort (map (Env_pair quote) e)) = mset (map (Env_pair quote) e)"
    by (simp add: Env_String_def)
  then show "\<exists>ps. Env_String quote e = strings_Join ps '' '' \<and> sorted ps \<and>
          mset ps = mset (map (Env_pair quote) e)" by blast
next
  show "distinct (map fst e1) \<and> distinct (map fst e2) \<and> map_of e1 = map_of e2 \<longrightarrow>
      Env_String quote e1 = Env_String quote e2"
  proof
    assume "distinct (map fst e1) \<and> distinct (map fst e2) \<and> map_of e1 = map_of e2"
    then have "mset e1 = mset e2" by (simp add: Env_same_entries)
    then have "mset (map (Env_pair quote) e1) = mset (map (Env_pair quote) e2)" by simp
    then have "sort (map (Env_pair quote) e1) = sort (map (Env_pair quote) e2)"
      by (rule sort_cong_mset)
    then show "Env_String quote e1 = Env_String quote e2" by (simp add: Env_String_def)
  qed
qed

lemmas quote_eval = Env_String_def Env_String_bykey_def Env_pair_def maybeQuote_def
  strings_Contains_def strings_Count_def strings_Index_def squote_def dquote_def
  slice_to_def slice_from_def slice_def doubleQuoted_def singleQuoted_def
  maybeQuote_beg_def maybeQuote_end_def strings_LastIndexAny_def

theorem Env_String_deterministic_witness:
  "distinct (map fst [(''A'', ''x''), (''A1'', ''y'')]) \<and>
   distinct (map fst [(''A1'', ''y''), (''A'', ''x'')]) \<and>
   map_of [(''A'', ''x''), (''A1'', ''y'')] = map_of [(''A1'', ''y''), (''A'', ''x'')] \<and>
   Env_String id [(''A'', ''x''), (''A1'', ''y'')] = Env_String id [(''A1'', ''y''), (''A'', ''x'')] \<and>
   Env_String id [(''A1'', ''y''), (''A'', ''x'')] = ''A1=y A=x''"
proof -
  have h: "distinct (map fst [(''A'', ''x''), (''A1'', ''y'')]) \<and>
   distinct (map fst [(''A1'', ''y''), (''A'', ''x'')]) \<and>
   map_of [(''A'', ''x''), (''A1'', ''y'')] = map_of [(''A1'', ''y''), (''A'', ''x'')]"
    by (auto simp: fun_eq_iff)
  have v: "Env_String id [(''A1'', ''y''), (''A'', ''x'')] = ''A1=y A=x''"
    by (simp add: quote_eval)
  from Env_String_deterministic[of id "[]" "[(''A'', ''x''), (''A1'', ''y'')]"
      "[(''A1'', ''y''), (''A'', ''x'')]"] h v
  show ?thesis by blast
qed

text \<open>
  The order is that of the rendered pairs, not that of the keys: \<open>A\<close> is before \<open>A1\<close>,
  but \<open>A1=y\<close> is before \<open>A=x\<close>, because the byte \<open>1\<close> is below the byte \<open>=\<close>.
\<close>

theorem Env_String_bykey_counterexample:
  "Env_String id [(''A'', ''x''), (''A1'', ''y'')] \<noteq>
     Env_String_bykey id [(''A'', ''x''), (''A1'', ''y'')]"
  by (simp add: quote_eval)


section \<open>Properties of the quoting\<close>

lemma IndexAny_bounds:
  "- 1 \<le> strings_IndexAny s cs \<and> strings_IndexAny s cs < int (length s)"
  by (induction s) (auto simp: Let_def)

lemma IndexAny_none: "strings_IndexAny s cs < 0 \<longleftrightarrow> set s \<inter> set cs = {}"
proof (induction s)
  case Nil
  show ?case by simp
next
  case (Cons x s)
  with IndexAny_bounds[of s cs] show ?case by (auto simp: Let_def)
qed

lemma IndexAny_skip:
  "set a \<inter> set cs = {} \<Longrightarrow>
     strings_IndexAny (a @ r) cs =
       (if strings_IndexAny r cs < 0 then - 1 else int (length a) + strings_IndexAny r cs)"
  using IndexAny_bounds[of r cs] by (induction a) (auto simp: Let_def)

lemma IndexAny_first:
  "set a \<inter> set cs = {} \<Longrightarrow> c \<in> set cs \<Longrightarrow>
     strings_IndexAny (a @ c # r) cs = int (length a)"
  by (simp add: IndexAny_skip)

lemma IndexAny_upper:
  "c \<in> set cs \<Longrightarrow> 0 \<le> strings_IndexAny (a @ c # r) cs \<and>
     strings_IndexAny (a @ c # r) cs \<le> int (length a)"
proof (induction a)
  case Nil
  then show ?case by simp
next
  case (Cons x a)
  then show ?case by (auto simp: Let_def)
qed

lemma LastIndexAny_last:
  assumes "set z \<inter> set cs = {}" "c \<in> set cs"
  shows "strings_LastIndexAny (a @ c # z) cs = int (length a)"
proof -
  have "strings_IndexAny (rev z @ c # rev a) cs = int (length (rev z))"
    using assms by (intro IndexAny_first) simp_all
  then show ?thesis by (simp add: strings_LastIndexAny_def)
qed

lemma Count_zero: "strings_Count s c = 0 \<longleftrightarrow> c \<notin> set s"
  by (auto simp: strings_Count_def filter_empty_conv)

lemma maybeQuote_squote:
  "squote \<in> set s \<Longrightarrow> maybeQuote quote s = quote s"
  by (simp add: maybeQuote_def strings_Contains_def)

lemma maybeQuote_bare:
  "squote \<notin> set s \<Longrightarrow> dquote \<notin> set s \<Longrightarrow> CHR '' '' \<notin> set s \<Longrightarrow> maybeQuote quote s = s"
  using IndexAny_none[of s "[CHR '' '']"]
  by (simp add: maybeQuote_def strings_Contains_def Count_zero strings_Index_def)

lemma maybeQuote_whole:
  assumes "squote \<notin> set s" "dquote \<notin> set s" "s = a @ '' '' @ r"
    "CHR '' '' \<notin> set a" "CHR ''='' \<notin> set a"
  shows "maybeQuote quote s = doubleQuoted s"
proof -
  have sp: "strings_Index s CHR '' '' = int (length a)"
    unfolding strings_Index_def assms(3) using assms(4) by (simp add: IndexAny_first)
  have "strings_IndexAny (a @ '' '' @ r) [CHR ''=''] =
      (if strings_IndexAny ('' '' @ r) [CHR ''=''] < 0 then - 1
       else int (length a) + strings_IndexAny ('' '' @ r) [CHR ''=''])"
    using assms(5) by (intro IndexAny_skip) simp
  moreover have "strings_IndexAny ('' '' @ r) [CHR ''=''] < 0 \<or>
      strings_IndexAny ('' '' @ r) [CHR ''=''] \<ge> 1"
    using IndexAny_bounds[of r "[CHR ''='']"] by (auto simp: Let_def)
  ultimately have eq: "strings_Index s CHR ''='' < 0 \<or> strings_Index s CHR ''='' > int (length a)"
    unfolding strings_Index_def assms(3) by auto
  from assms(1,2) sp eq show ?thesis
    by (auto simp: maybeQuote_def strings_Contains_def Count_zero doubleQuoted_def Let_def)
qed

lemma slice_to_append: "slice_to (a @ b) (int (length a)) = a"
  by (simp add: slice_to_def)

lemma slice_from_append: "slice_from (a @ b) (int (length a)) = b"
  by (simp add: slice_from_def)

lemma slice_append: "slice (a @ m @ z) (int (length a)) (int (length a) + int (length m)) = m"
  by (simp add: slice_def)

lemma maybeQuote_value:
  assumes "squote \<notin> set (nm @ v)" "dquote \<notin> set (nm @ v)"
    "CHR ''='' \<notin> set nm" "CHR '' '' \<notin> set nm" "CHR '' '' \<in> set v"
  shows "maybeQuote quote (nm @ ''='' @ v) = nm @ ''='' @ doubleQuoted v"
proof -
  let ?s = "nm @ ''='' @ v"
  have eq: "strings_Index ?s CHR ''='' = int (length nm)"
    unfolding strings_Index_def using assms(3) by (simp add: IndexAny_first)
  have v: "strings_IndexAny v [CHR '' ''] \<ge> 0"
    using IndexAny_none[of v "[CHR '' '']"] assms(5) by auto
  have "strings_IndexAny (nm @ (''='' @ v)) [CHR '' ''] =
      (if strings_IndexAny (''='' @ v) [CHR '' ''] < 0 then - 1
       else int (length nm) + strings_IndexAny (''='' @ v) [CHR '' ''])"
    using assms(4) by (intro IndexAny_skip) simp
  with v have sp: "strings_Index ?s CHR '' '' > int (length nm)"
    unfolding strings_Index_def by (simp add: Let_def)
  have q: "squote \<notin> set ?s" "dquote \<notin> set ?s" using assms(1,2) by (auto simp: squote_def dquote_def)
  have e1: "strings_Index ?s CHR ''='' + 1 = int (length (nm @ ''=''))" using eq by simp
  have sl: "slice_to ?s (int (length (nm @ ''=''))) = nm @ ''=''"
    "slice_from ?s (int (length (nm @ ''=''))) = v"
    using slice_to_append[of "nm @ ''=''" v] slice_from_append[of "nm @ ''=''" v] by simp_all
  have "maybeQuote quote ?s =
      slice_to ?s (strings_Index ?s CHR ''='' + 1) @ [dquote] @
      slice_from ?s (strings_Index ?s CHR ''='' + 1) @ [dquote]"
    using q sp eq by (simp add: maybeQuote_def strings_Contains_def Count_zero Let_def)
  then show ?thesis unfolding e1 sl by (simp add: doubleQuoted_def)
qed

lemma maybeQuote_two:
  "squote \<notin> set s \<Longrightarrow> strings_Count s dquote = 2 \<Longrightarrow>
     maybeQuote quote s =
       slice_to s (maybeQuote_beg s) @ [squote] @ slice s (maybeQuote_beg s) (maybeQuote_end s) @
       [squote] @ slice_from s (maybeQuote_end s)"
  by (simp add: maybeQuote_def strings_Contains_def Let_def)

lemma maybeQuote_end_eq:
  assumes "m \<noteq> []" "isBreak (last m)" "\<forall>c \<in> set z. \<not> isBreak c"
  shows "maybeQuote_end (a @ m @ z) = int (length a) + int (length m)"
proof -
  from assms(1) obtain b l where m: "m = b @ [l]" by (cases m rule: rev_cases) auto
  with assms(2) have l: "isBreak l" by simp
  have "strings_LastIndexAny ((a @ b) @ l # z) [dquote, CHR '' ''] = int (length (a @ b))"
    using l assms(3) by (intro LastIndexAny_last) (auto simp: isBreak_def)
  then show ?thesis unfolding m by (simp add: maybeQuote_end_def)
qed

lemma maybeQuote_beg_name:
  assumes "\<forall>c \<in> set nm. \<not> isBreak c \<and> c \<noteq> CHR ''=''" "\<exists>c \<in> set r. isBreak c"
  shows "maybeQuote_beg (nm @ ''='' @ r) = int (length nm) + 1"
proof -
  have nb: "set nm \<inter> set [dquote, CHR '' ''] = {}" using assms(1) by (auto simp: isBreak_def)
  have r: "strings_IndexAny r [dquote, CHR '' ''] \<ge> 0"
    using IndexAny_none[of r "[dquote, CHR '' '']"] assms(2) by (auto simp: isBreak_def)
  have "CHR ''='' \<noteq> dquote" by (simp add: dquote_def)
  with r have "strings_IndexAny (''='' @ r) [dquote, CHR '' ''] \<ge> 1" by (simp add: Let_def)
  with IndexAny_skip[OF nb, of "''='' @ r"]
  have b: "strings_IndexAny (nm @ ''='' @ r) [dquote, CHR '' ''] > int (length nm)" by simp
  have "strings_IndexAny (nm @ CHR ''='' # r) [CHR ''=''] = int (length nm)"
    using assms(1) by (intro IndexAny_first) auto
  then have i: "strings_Index (nm @ ''='' @ r) CHR ''='' = int (length nm)"
    by (simp add: strings_Index_def)
  from b i show ?thesis by (simp add: maybeQuote_beg_def Let_def)
qed

lemma maybeQuote_beg_break:
  assumes "\<forall>c \<in> set a. \<not> isBreak c \<and> c \<noteq> CHR ''=''" "m \<noteq> []" "isBreak (hd m)"
  shows "maybeQuote_beg (a @ m @ z) = int (length a)"
proof -
  from assms(2) have m: "m = hd m # tl m" by simp
  have nb: "set a \<inter> set [dquote, CHR '' ''] = {}" using assms(1) by (auto simp: isBreak_def)
  have "strings_IndexAny (a @ hd m # (tl m @ z)) [dquote, CHR '' ''] = int (length a)"
    using nb assms(3) by (intro IndexAny_first) (auto simp: isBreak_def)
  moreover have "a @ hd m # (tl m @ z) = a @ m @ z" using m by (metis append_Cons)
  ultimately have b: "strings_IndexAny (a @ m @ z) [dquote, CHR '' ''] = int (length a)" by simp
  have ne: "set a \<inter> set [CHR ''=''] = {}" using assms(1) by auto
  from IndexAny_skip[OF ne, of "m @ z"] IndexAny_bounds[of "m @ z" "[CHR ''='']"]
  have "strings_Index (a @ m @ z) CHR ''='' < 0 \<or> strings_Index (a @ m @ z) CHR ''='' \<ge> int (length a)"
    by (auto simp: strings_Index_def split: if_splits)
  with b show ?thesis by (auto simp: maybeQuote_beg_def Let_def)
qed

lemma slice_from_append2:
  "slice_from (a @ m @ z) (int (length a) + int (length m)) = z"
  using slice_from_append[of "a @ m" z] by simp

lemma maybeQuote_two_general:
  assumes "squote \<notin> set (a @ m @ z)" "strings_Count (a @ m @ z) dquote = 2"
    "maybeQuote_beg (a @ m @ z) = int (length a)"
    "maybeQuote_end (a @ m @ z) = int (length a) + int (length m)"
  shows "maybeQuote quote (a @ m @ z) = a @ singleQuoted m @ z"
  unfolding maybeQuote_two[OF assms(1,2)] assms(3,4) slice_to_append slice_append
    slice_from_append2
  by (simp add: singleQuoted_def)

lemma maybeQuote_two_name:
  assumes "squote \<notin> set (nm @ ''='' @ m @ z)" "strings_Count (nm @ ''='' @ m @ z) dquote = 2"
    "\<forall>c \<in> set nm. \<not> isBreak c \<and> c \<noteq> CHR ''=''"
    "m \<noteq> []" "isBreak (last m)" "\<forall>c \<in> set z. \<not> isBreak c"
  shows "maybeQuote quote (nm @ ''='' @ m @ z) = nm @ ''='' @ singleQuoted m @ z"
proof -
  from assms(4,5) have "\<exists>c \<in> set (m @ z). isBreak c" using last_in_set by fastforce
  with assms(3) have b: "maybeQuote_beg ((nm @ ''='') @ m @ z) = int (length (nm @ ''=''))"
    using maybeQuote_beg_name[of nm "m @ z"] by simp
  have e: "maybeQuote_end ((nm @ ''='') @ m @ z) = int (length (nm @ ''='')) + int (length m)"
    using assms(4,5,6) by (rule maybeQuote_end_eq)
  have "maybeQuote quote ((nm @ ''='') @ m @ z) = (nm @ ''='') @ singleQuoted m @ z"
    using assms(1,2) b e by (intro maybeQuote_two_general) simp_all
  then show ?thesis by simp
qed

lemma maybeQuote_two_break:
  assumes "squote \<notin> set (a @ m @ z)" "strings_Count (a @ m @ z) dquote = 2"
    "\<forall>c \<in> set a. \<not> isBreak c \<and> c \<noteq> CHR ''=''"
    "m \<noteq> []" "isBreak (hd m)" "isBreak (last m)" "\<forall>c \<in> set z. \<not> isBreak c"
  shows "maybeQuote quote (a @ m @ z) = a @ singleQuoted m @ z"
proof -
  have b: "maybeQuote_beg (a @ m @ z) = int (length a)"
    using assms(3,4,5) by (rule maybeQuote_beg_break)
  have e: "maybeQuote_end (a @ m @ z) = int (length a) + int (length m)"
    using assms(4,6,7) by (rule maybeQuote_end_eq)
  from assms(1,2) b e show ?thesis by (rule maybeQuote_two_general)
qed

lemma maybeQuote_other:
  "squote \<notin> set s \<Longrightarrow> strings_Count s dquote \<noteq> 0 \<Longrightarrow> strings_Count s dquote \<noteq> 2 \<Longrightarrow>
     maybeQuote quote s = singleQuoted s"
  by (simp add: maybeQuote_def strings_Contains_def singleQuoted_def)

text \<open>
  \<^bold>\<open>C9\<close> (quoting), as the code has it.  An argument with a single quote is handed to
  \<open>strconv.Quote\<close>.  Otherwise, with no double quote: without a space it is printed
  bare; with a space and no \<open>=\<close> before the first space it is wrapped whole in double
  quotes; with a \<open>=\<close> before the first space only what follows the first \<open>=\<close> is
  wrapped in double quotes.  With exactly two double quotes, single quotes are put
  around the part that ends at the last double quote or space and that starts right
  after the first \<open>=\<close> when this comes before every double quote and space, and at the
  first double quote or space otherwise.  With any other number of double quotes the
  argument is wrapped whole in single quotes.
\<close>

theorem maybeQuote_cases:
  "(squote \<in> set s \<longrightarrow> maybeQuote quote s = quote s) \<and>
   (squote \<notin> set s \<and> dquote \<notin> set s \<and> CHR '' '' \<notin> set s \<longrightarrow> maybeQuote quote s = s) \<and>
   (squote \<notin> set s \<and> dquote \<notin> set s \<and> s = a @ '' '' @ r \<and>
    CHR '' '' \<notin> set a \<and> CHR ''='' \<notin> set a \<longrightarrow>
      maybeQuote quote s = doubleQuoted s) \<and>
   (squote \<notin> set (nm @ v) \<and> dquote \<notin> set (nm @ v) \<and>
    CHR ''='' \<notin> set nm \<and> CHR '' '' \<notin> set nm \<and> CHR '' '' \<in> set v \<longrightarrow>
      maybeQuote quote (nm @ ''='' @ v) = nm @ ''='' @ doubleQuoted v) \<and>
   (squote \<notin> set (nm @ ''='' @ m @ z) \<and> strings_Count (nm @ ''='' @ m @ z) dquote = 2 \<and>
    (\<forall>c \<in> set nm. \<not> isBreak c \<and> c \<noteq> CHR ''='') \<and>
    m \<noteq> [] \<and> isBreak (last m) \<and> (\<forall>c \<in> set z. \<not> isBreak c) \<longrightarrow>
      maybeQuote quote (nm @ ''='' @ m @ z) = nm @ ''='' @ singleQuoted m @ z) \<and>
   (squote \<notin> set (a @ m @ z) \<and> strings_Count (a @ m @ z) dquote = 2 \<and>
    (\<forall>c \<in> set a. \<not> isBreak c \<and> c \<noteq> CHR ''='') \<and>
    m \<noteq> [] \<and> isBreak (hd m) \<and> isBreak (last m) \<and> (\<forall>c \<in> set z. \<not> isBreak c) \<longrightarrow>
      maybeQuote quote (a @ m @ z) = a @ singleQuoted m @ z) \<and>
   (squote \<notin> set s \<and> strings_Count s dquote \<noteq> 0 \<and> strings_Count s dquote \<noteq> 2 \<longrightarrow>
      maybeQuote quote s = singleQuoted s)"
proof -
  have 1: "squote \<in> set s \<longrightarrow> maybeQuote quote s = quote s"
    by (simp add: maybeQuote_squote)
  have 2: "squote \<notin> set s \<and> dquote \<notin> set s \<and> CHR '' '' \<notin> set s \<longrightarrow> maybeQuote quote s = s"
    by (simp add: maybeQuote_bare)
  have 3: "squote \<notin> set s \<and> dquote \<notin> set s \<and> s = a @ '' '' @ r \<and>
    CHR '' '' \<notin> set a \<and> CHR ''='' \<notin> set a \<longrightarrow> maybeQuote quote s = doubleQuoted s"
    using maybeQuote_whole[of s a r quote] by blast
  have 4: "squote \<notin> set (nm @ v) \<and> dquote \<notin> set (nm @ v) \<and>
    CHR ''='' \<notin> set nm \<and> CHR '' '' \<notin> set nm \<and> CHR '' '' \<in> set v \<longrightarrow>
      maybeQuote quote (nm @ ''='' @ v) = nm @ ''='' @ doubleQuoted v"
    using maybeQuote_value[of nm v quote] by blast
  have 5: "squote \<notin> set (nm @ ''='' @ m @ z) \<and> strings_Count (nm @ ''='' @ m @ z) dquote = 2 \<and>
    (\<forall>c \<in> set nm. \<not> isBreak c \<and> c \<noteq> CHR ''='') \<and>
    m \<noteq> [] \<and> isBreak (last m) \<and> (\<forall>c \<in> set z. \<not> isBreak c) \<longrightarrow>
      maybeQuote quote (nm @ ''='' @ m @ z) = nm @ ''='' @ singleQuoted m @ z"
    using maybeQuote_two_name[of nm m z quote] by blast
  have 6: "squote \<notin> set (a @ m @ z) \<and> strings_Count (a @ m @ z) dquote = 2 \<and>
    (\<forall>c \<in> set a. \<not> isBreak c \<and> c \<noteq> CHR ''='') \<and>
    m \<noteq> [] \<and> isBreak (hd m) \<and> isBreak (last m) \<and> (\<forall>c \<in> set z. \<not> isBreak c) \<longrightarrow>
      maybeQuote quote (a @ m @ z) = a @ singleQuoted m @ z"
    using maybeQuote_two_break[of a m z quote] by blast
  have 7: "squote \<notin> set s \<and> strings_Count s dquote \<noteq> 0 \<and> strings_Count s dquote \<noteq> 2 \<longrightarrow>
      maybeQuote quote s = singleQuoted s"
    by (simp add: maybeQuote_other)
  show ?thesis by (intro conjI 1 2 3 4 5 6 7)
qed

text \<open>
  No slice expression of \<open>maybeQuote\<close> is out of range: where the source slices at
  \<open>equal+1\<close>, and at \<open>beg\<close> and \<open>end\<close>, the bounds are in order and within the string.
\<close>

lemma maybeQuote_bounds:
  "(0 \<le> strings_Index s CHR ''='' \<longrightarrow>
      0 \<le> strings_Index s CHR ''='' + 1 \<and> strings_Index s CHR ''='' + 1 \<le> int (length s)) \<and>
   (strings_Count s dquote = 2 \<longrightarrow>
      0 \<le> maybeQuote_beg s \<and> maybeQuote_beg s \<le> maybeQuote_end s \<and>
      maybeQuote_end s \<le> int (length s))"
proof (rule conjI; rule impI)
  assume "0 \<le> strings_Index s CHR ''=''"
  with IndexAny_bounds[of s "[CHR ''='']"]
  show "0 \<le> strings_Index s CHR ''='' + 1 \<and> strings_Index s CHR ''='' + 1 \<le> int (length s)"
    by (simp add: strings_Index_def)
next
  assume "strings_Count s dquote = 2"
  then have "strings_Count s dquote \<noteq> 0" by simp
  then have "dquote \<in> set s" by (simp add: Count_zero)
  then have "\<exists>x \<in> set s. isBreak x" by (auto simp: isBreak_def)
  from split_list_first_prop[OF this]
  obtain a c r where s: "s = a @ c # r" and c: "isBreak c" and a: "\<forall>x \<in> set a. \<not> isBreak x"
    by blast
  have cs: "c \<in> set [dquote, CHR '' '']" using c by (auto simp: isBreak_def)
  have "set a \<inter> set [dquote, CHR '' ''] = {}" using a by (auto simp: isBreak_def)
  then have b0: "strings_IndexAny s [dquote, CHR '' ''] = int (length a)"
    unfolding s using cs by (rule IndexAny_first)
  have beg: "0 \<le> maybeQuote_beg s" "maybeQuote_beg s \<le> int (length a)"
    using b0 by (auto simp: maybeQuote_beg_def Let_def)
  have "rev s = rev r @ c # rev a" by (simp add: s)
  with IndexAny_upper[OF cs, of "rev r" "rev a"]
  have j: "0 \<le> strings_IndexAny (rev s) [dquote, CHR '' '']"
    "strings_IndexAny (rev s) [dquote, CHR '' ''] \<le> int (length r)" by simp_all
  then have e: "maybeQuote_end s = int (length s) - strings_IndexAny (rev s) [dquote, CHR '' '']"
    by (simp add: maybeQuote_end_def strings_LastIndexAny_def Let_def)
  from j have "int (length a) + 1 \<le> maybeQuote_end s" "maybeQuote_end s \<le> int (length s)"
    unfolding e by (simp_all add: s)
  with beg show "0 \<le> maybeQuote_beg s \<and> maybeQuote_beg s \<le> maybeQuote_end s \<and>
      maybeQuote_end s \<le> int (length s)" by simp
qed

theorem maybeQuote_cases_witness:
  "maybeQuote id [CHR ''i'', CHR ''t'', squote, CHR ''s''] = [CHR ''i'', CHR ''t'', squote, CHR ''s''] \<and>
   maybeQuote id ''abc'' = ''abc'' \<and>
   maybeQuote id ''a b=c'' = doubleQuoted ''a b=c'' \<and>
   maybeQuote id ''A=b c'' = ''A='' @ doubleQuoted ''b c'' \<and>
   maybeQuote id (''A='' @ doubleQuoted ''b c'' @ ''x'') =
     ''A='' @ singleQuoted (doubleQuoted ''b c'') @ ''x'' \<and>
   maybeQuote id (''A B='' @ doubleQuoted ''b c'' @ ''x'') =
     ''A'' @ singleQuoted ('' B='' @ doubleQuoted ''b c'') @ ''x'' \<and>
   maybeQuote id (''A='' @ [dquote] @ ''b c'') = singleQuoted (''A='' @ [dquote] @ ''b c'')"
proof -
  note ev = isBreak_def squote_def dquote_def doubleQuoted_def singleQuoted_def strings_Count_def
  have 1: "maybeQuote id [CHR ''i'', CHR ''t'', squote, CHR ''s''] =
      [CHR ''i'', CHR ''t'', squote, CHR ''s'']"
    using maybeQuote_cases[of "[CHR ''i'', CHR ''t'', squote, CHR ''s'']" id]
    by simp
  have 2: "maybeQuote id ''abc'' = ''abc''"
    using maybeQuote_cases[of "''abc''" id] by (simp add: ev)
  have 3: "maybeQuote id ''a b=c'' = doubleQuoted ''a b=c''"
    using maybeQuote_cases[of "''a b=c''" id "''a''" "''b=c''"] by (simp add: ev)
  have 4: "maybeQuote id ''A=b c'' = ''A='' @ doubleQuoted ''b c''"
    using maybeQuote_cases[of _ id _ _ "''A''" "''b c''"] by (simp add: ev)
  have 5: "maybeQuote id (''A='' @ doubleQuoted ''b c'' @ ''x'') =
      ''A='' @ singleQuoted (doubleQuoted ''b c'') @ ''x''"
    using maybeQuote_cases[of _ id _ _ "''A''" _ "doubleQuoted ''b c''" "''x''"] by (simp add: ev)
  have 6: "maybeQuote id (''A B='' @ doubleQuoted ''b c'' @ ''x'') =
      ''A'' @ singleQuoted ('' B='' @ doubleQuoted ''b c'') @ ''x''"
    using maybeQuote_cases[of _ id "''A''" _ _ _ "'' B='' @ doubleQuoted ''b c''" "''x''"]
    by (simp add: ev)
  have 7: "maybeQuote id (''A='' @ [dquote] @ ''b c'') = singleQuoted (''A='' @ [dquote] @ ''b c'')"
    using maybeQuote_cases[of "''A='' @ [dquote] @ ''b c''" id] by (simp add: ev)
  show ?thesis by (intro conjI 1 2 3 4 5 6 7)
qed

text \<open>
  An argument with a space and no quote character is not always wrapped in double
  quotes: of \<open>A=b c\<close> only the value is.
\<close>

theorem maybeQuote_doubleQuoted_counterexample:
  "CHR '' '' \<in> set ''A=b c'' \<and> dquote \<notin> set ''A=b c'' \<and> squote \<notin> set ''A=b c'' \<and>
   maybeQuote id ''A=b c'' \<noteq> doubleQuoted ''A=b c'' \<and>
   maybeQuote id ''A=b c'' = ''A='' @ doubleQuoted ''b c''"
  by (simp add: quote_eval)


end
